theory Spec2Isabelle
  imports Main
begin

section \<open>Values, native memory and the tracer\<close>

text \<open>
  The embedding keeps two kinds of memory apart, as the example program does: native
  (C++) memory, where \<open>SafeBox\<close> instances live at an address, and the collector's
  managed heap, whose cells are named by an identifier. A native pointer is an
  \<open>addr option\<close>: \<open>None\<close> is \<open>nullptr\<close>.
\<close>

type_synonym addr = nat
type_synonym gcthing = nat

text \<open>
  \<open>JS::Value\<close>: only the three shapes the example uses are distinguished: the
  undefined value (what a default-constructed \<open>JS::Heap<JS::Value>\<close> and a fresh reserved
  slot hold), a reference to a GC thing, and \<open>JS::PrivateValue(ptr)\<close>, an opaque native
  pointer (possibly null).
\<close>

datatype Value = UndefinedValue | GCThingValue gcthing | PrivateValue "addr option"

text \<open>
  \<open>struct SafeBox\<close>: one stashed \<open>JS::Heap<JS::Value>\<close> and a \<open>std::vector\<close> of them.
\<close>

record SafeBox =
  stashed :: Value
  container :: "Value list"

text \<open>
  The root variables of the example program, by their names in the source (\<open>global\<close> is
  the local of \<open>CustomObjectExample\<close>, \<open>obj\<close> the local of \<open>CustomObject::create\<close>).
\<close>

datatype root_id =
    stackSafe | heapSafe | sharedSafe
  | globalPtrSafe | globalMaybeSafe
  | memberSafe | memberObjPtr
  | global_var | obj_var

text \<open>
  The address of a location that holds a collector-managed value: \<open>&stashed\<close> of the box
  at an address, the address of the \<open>i\<close>-th element of its container, or the storage of a
  root that holds an object pointer. This is what \<open>JS::TraceEdge\<close> receives.
\<close>

datatype slot_addr = StashedSlot addr | ElemSlot addr nat | RootSlot root_id

text \<open>Native memory: the boxes that are currently allocated.\<close>

type_synonym store = "addr \<rightharpoonup> SafeBox"

text \<open>
  What C++ leaves undefined is a value of the model: calling a method through a null
  pointer, and using or deleting a pointer whose box has been deleted.
\<close>

datatype fault = NullDereference | DanglingPointer

text \<open>
  Modelled from the spec: the Tracer (\<open>JSTracer\<close> is the engine's). What the example's
  code can do to a tracer is hand it edges; the tracer here keeps each edge visit, in
  order, with the label it was given.
\<close>

record JSTracer =
  visits :: "(slot_addr \<times> string) list"

text \<open>
  Modelled from the spec: the generic trace entry point
  \<open>traceEdge(Tracer, slotAddress, debugLabel)\<close> (\<open>JS::TraceEdge\<close> is the engine's), the
  single primitive all trace methods funnel through. One call is one visit.
\<close>

definition TraceEdge :: "JSTracer \<Rightarrow> slot_addr \<Rightarrow> string \<Rightarrow> JSTracer" where
  "TraceEdge trc slot name = trc\<lparr>visits := visits trc @ [(slot, name)]\<rparr>"

section \<open>SafeBox::trace\<close>

text \<open>
  The range-for loop of \<open>SafeBox::trace\<close> over \<open>container\<close>: one \<open>TraceEdge\<close> per
  element, by reference, front to back. \<open>i\<close> is the index of the first element of the
  remaining suffix.
\<close>

fun trace_container :: "addr \<Rightarrow> nat \<Rightarrow> Value list \<Rightarrow> JSTracer \<Rightarrow> JSTracer" where
  "trace_container this i [] trc = trc"
| "trace_container this i (elem # rest) trc =
     trace_container this (Suc i) rest (TraceEdge trc (ElemSlot this i) ''container value'')"

definition SafeBox_trace :: "addr \<Rightarrow> SafeBox \<Rightarrow> JSTracer \<Rightarrow> JSTracer" where
  "SafeBox_trace this box trc =
     trace_container this 0 (container box)
       (TraceEdge trc (StashedSlot this) ''stashed value'')"

text \<open>\<open>b->trace(trc)\<close> through a native pointer: the pointer is dereferenced.\<close>

definition call_trace :: "store \<Rightarrow> addr option \<Rightarrow> JSTracer \<Rightarrow> fault + JSTracer" where
  "call_trace st b trc =
     (case b of
        None \<Rightarrow> Inl NullDereference
      | Some a \<Rightarrow>
          (case st a of
             None \<Rightarrow> Inl DanglingPointer
           | Some box \<Rightarrow> Inr (SafeBox_trace a box trc)))"

text \<open>
  The \<open>JS::Heap\<close> fields of a box, independently of any tracing code: the set of slot
  addresses that hold its collector-managed values.
\<close>

definition heap_slots :: "addr \<Rightarrow> SafeBox \<Rightarrow> slot_addr set" where
  "heap_slots a box = insert (StashedSlot a) (ElemSlot a ` {..<length (container box)})"

text \<open>The visits one call of \<open>SafeBox::trace\<close> adds, as a list.\<close>

definition SafeBox_edges :: "addr \<Rightarrow> SafeBox \<Rightarrow> (slot_addr \<times> string) list" where
  "SafeBox_edges a box =
     (StashedSlot a, ''stashed value'') #
     map (\<lambda>i. (ElemSlot a i, ''container value'')) [0..<length (container box)]"

section \<open>CustomObject\<close>

text \<open>
  A managed object as far as the example looks into it: the name of its class and its
  reserved slots, a fixed-size array of values.
\<close>

record JSObject =
  clasp_name :: string
  slots :: "Value list"

text \<open>\<open>enum Slots { OwnedBoxSlot, UnownedBoxSlot, SlotCount }\<close>\<close>

definition OwnedBoxSlot :: nat where "OwnedBoxSlot = 0"
definition UnownedBoxSlot :: nat where "UnownedBoxSlot = 1"
definition SlotCount :: nat where "SlotCount = 2"

text \<open>
  \<open>JSClassOps\<close> and \<open>JSClass\<close>, as far as the example fills them in: the optional
  finalize and trace hooks, the name, and the two flags (the number of reserved slots and
  foreground finalization).
\<close>

record JSClassOps =
  finalize :: "(store \<Rightarrow> JSObject \<Rightarrow> fault + store) option"
  trace :: "(store \<Rightarrow> JSTracer \<Rightarrow> JSObject \<Rightarrow> fault + JSTracer) option"

record JSClass =
  cls_name :: string
  reserved_slots :: nat
  foreground_finalize :: bool
  cOps :: JSClassOps

text \<open>
  Modelled from the spec: \<open>JS_NewObject\<close> is the engine's. An object of a class has the
  class's number of reserved slots, a fixed-size indexed array, all undefined at first;
  the result is null when the allocation fails (\<open>ok\<close> is false).
\<close>

definition JS_NewObject :: "bool \<Rightarrow> JSClass \<Rightarrow> JSObject option" where
  "JS_NewObject ok c =
     (if ok then Some \<lparr>clasp_name = cls_name c, slots = replicate (reserved_slots c) UndefinedValue\<rparr>
      else None)"

text \<open>
  Modelled from the spec: \<open>JS_SetReservedSlot\<close> is the engine's. It stores a tagged
  managed value or an opaque native pointer at an index of the reserved-slot array; the
  index is one of the class (the engine asserts it), outside the array nothing is stored.
\<close>

definition JS_SetReservedSlot :: "JSObject \<Rightarrow> nat \<Rightarrow> Value \<Rightarrow> JSObject" where
  "JS_SetReservedSlot obj i v = obj\<lparr>slots := (slots obj)[i := v]\<rparr>"

text \<open>
  Modelled from the spec: \<open>JS::GetMaybePtrFromReservedSlot\<close> is the engine's. It reads the
  native pointer a reserved slot stores, and reads an undefined slot as null. The hooks
  read the two slots of an object of the class \<open>Custom\<close>, which hold private values or
  are undefined; a slot that holds a managed value, or an index outside the array, is
  outside the engine's contract and is read as null here.
\<close>

definition GetMaybePtrFromReservedSlot :: "JSObject \<Rightarrow> nat \<Rightarrow> addr option" where
  "GetMaybePtrFromReservedSlot obj i =
     (if i < length (slots obj) then
        (case slots obj ! i of
           PrivateValue p \<Rightarrow> p
         | UndefinedValue \<Rightarrow> None
         | GCThingValue g \<Rightarrow> None)
      else None)"

text \<open>\<open>CustomObject::ownedBox\<close> and \<open>CustomObject::unownedBox\<close>.\<close>

definition ownedBox :: "JSObject \<Rightarrow> addr option" where
  "ownedBox obj = GetMaybePtrFromReservedSlot obj OwnedBoxSlot"

definition unownedBox :: "JSObject \<Rightarrow> addr option" where
  "unownedBox obj = GetMaybePtrFromReservedSlot obj UnownedBoxSlot"

text \<open>
  The \<open>delete\<close> expression on a \<open>SafeBox*\<close>: nothing for a null pointer, the box is
  destroyed and its memory released for a live one; deleting what is not allocated is
  undefined in C++.
\<close>

definition delete_SafeBox :: "store \<Rightarrow> addr option \<Rightarrow> fault + store" where
  "delete_SafeBox st p =
     (case p of
        None \<Rightarrow> Inr st
      | Some a \<Rightarrow>
          (case st a of
             None \<Rightarrow> Inl DanglingPointer
           | Some box \<Rightarrow> Inr (st(a := None))))"

text \<open>\<open>CustomObject::finalize\<close>: deletes the owned box, and only that.\<close>

definition CustomObject_finalize :: "store \<Rightarrow> JSObject \<Rightarrow> fault + store" where
  "CustomObject_finalize st obj = delete_SafeBox st (ownedBox obj)"

text \<open>
  \<open>CustomObject::trace\<close>: the owned box first, then the unowned one, each only when its
  pointer is not null.
\<close>

definition CustomObject_trace :: "store \<Rightarrow> JSTracer \<Rightarrow> JSObject \<Rightarrow> fault + JSTracer" where
  "CustomObject_trace st trc obj =
     (let b = ownedBox obj in
      case (if b \<noteq> None then call_trace st b trc else Inr trc) of
        Inl f \<Rightarrow> Inl f
      | Inr trc1 \<Rightarrow>
          (let b = unownedBox obj in
           if b \<noteq> None then call_trace st b trc1 else Inr trc1))"

text \<open>
  \<open>CustomObject::classOps\<close> and \<open>CustomObject::clasp\<close>: the class is named \<open>Custom\<close>,
  reserves \<open>SlotCount\<close> slots, is finalized in the foreground, and its hooks are the two
  functions above.
\<close>

definition classOps :: JSClassOps where
  "classOps = \<lparr>finalize = Some CustomObject_finalize, trace = Some CustomObject_trace\<rparr>"

definition clasp :: JSClass where
  "clasp = \<lparr>cls_name = ''Custom'', reserved_slots = SlotCount, foreground_finalize = True,
            cOps = classOps\<rparr>"

text \<open>
  \<open>CustomObject::create\<close>: null when \<open>JS_NewObject\<close> fails, else the new object with the
  two pointers stored as private values.
\<close>

definition CustomObject_create :: "bool \<Rightarrow> addr option \<Rightarrow> addr option \<Rightarrow> JSObject option" where
  "CustomObject_create ok box1 box2 =
     (case JS_NewObject ok clasp of
        None \<Rightarrow> None
      | Some obj \<Rightarrow>
          Some (JS_SetReservedSlot
                  (JS_SetReservedSlot obj OwnedBoxSlot (PrivateValue box1))
                  UnownedBoxSlot (PrivateValue box2)))"

text \<open>A native pointer that may be used: null, or the address of an allocated box.\<close>

definition live_ptr :: "store \<Rightarrow> addr option \<Rightarrow> bool" where
  "live_ptr st p = (case p of None \<Rightarrow> True | Some a \<Rightarrow> st a \<noteq> None)"

text \<open>The \<open>JS::Heap\<close> fields behind a native pointer: none behind a null pointer.\<close>

definition slots_behind :: "store \<Rightarrow> addr option \<Rightarrow> slot_addr set" where
  "slots_behind st p =
     (case p of
        None \<Rightarrow> {}
      | Some a \<Rightarrow> (case st a of None \<Rightarrow> {} | Some box \<Rightarrow> heap_slots a box))"

definition visits_behind :: "store \<Rightarrow> addr option \<Rightarrow> (slot_addr \<times> string) list" where
  "visits_behind st p =
     (case p of
        None \<Rightarrow> []
      | Some a \<Rightarrow> (case st a of None \<Rightarrow> [] | Some box \<Rightarrow> SafeBox_edges a box))"

text \<open>The slots a tracer has visited since it held \<open>n\<close> visits.\<close>

definition visited_since :: "nat \<Rightarrow> JSTracer \<Rightarrow> slot_addr set" where
  "visited_since n trc = fst ` set (drop n (visits trc))"

section \<open>The pass-through policy for shared pointers\<close>

text \<open>
  \<open>JS::GCPolicy<T>\<close> of the wrapped type is a parameter: three operations on a target.
  A \<open>std::shared_ptr<T>\<close> is an optional target; \<open>get()\<close> of an empty one is null.
\<close>

record ('t, 'trc) GCPolicy =
  policy_trace :: "'trc \<Rightarrow> 't \<Rightarrow> string \<Rightarrow> 'trc"
  policy_needsSweep :: "'t \<Rightarrow> bool"
  policy_isValid :: "'t \<Rightarrow> bool"

type_synonym 't shared_ptr = "'t option"

definition shared_ptr_trace ::
  "('t, 'trc) GCPolicy \<Rightarrow> 'trc \<Rightarrow> 't shared_ptr \<Rightarrow> string \<Rightarrow> 'trc" where
  "shared_ptr_trace pol trc tp name =
     (case tp of Some target \<Rightarrow> policy_trace pol trc target name | None \<Rightarrow> trc)"

definition shared_ptr_needsSweep :: "('t, 'trc) GCPolicy \<Rightarrow> 't shared_ptr \<Rightarrow> bool" where
  "shared_ptr_needsSweep pol tp =
     (case tp of Some target \<Rightarrow> policy_needsSweep pol target | None \<Rightarrow> False)"

definition shared_ptr_isValid :: "('t, 'trc) GCPolicy \<Rightarrow> 't shared_ptr \<Rightarrow> bool" where
  "shared_ptr_isValid pol t =
     (case t of Some target \<Rightarrow> policy_isValid pol target | None \<Rightarrow> True)"

section \<open>The engine as the example uses it\<close>

text \<open>
  What a root variable holds: an object pointer (\<open>JS::Rooted<JSObject*>\<close>,
  \<open>JS::PersistentRooted<JSObject*>\<close>) or a \<open>SafeBox\<close>, by value or through a smart
  pointer (\<open>JS::Rooted<SafeBox>\<close>, \<open>JS::Rooted<js::UniquePtr<SafeBox>>\<close>,
  \<open>JS::Rooted<std::shared_ptr<SafeBox>>\<close> and their persistent counterparts). A box held
  by value is a box at the address of the root's storage.
\<close>

datatype rooted = RootedObject "gcthing option" | RootedBox "addr option"

datatype phase = NotStarted | Running | ShutDown

text \<open>
  Protocol violations and native faults. The spec makes a violation a programming error
  that is detected and aborts; here it is the result of the operation that detects it.
\<close>

datatype error =
    Fault fault
  | LIFOViolation
  | RootBeforeStartup
  | RootInitializedTwice
  | RootAtShutdown

text \<open>
  What the collector's life cycle and the permanent root set go through, in the order it
  happens: startup, the registration and the deregistration of a persistent root,
  shutdown.
\<close>

datatype event = Started | Registered root_id | Deregistered root_id | Stopped

text \<open>
  The state of the process: the collector's phase, the stack root registry (head first),
  the registered persistent roots, what each root holds, native memory with the next
  address \<open>new\<close> returns, the address of the static local \<open>eternalBox\<close> of
  \<open>CustomObjectExample\<close> once it is constructed, the managed heap with the next cell the
  engine allocates, the log of finalize-hook invocations, and the events so far.
\<close>

record Runtime =
  phase :: phase
  stack_roots :: "root_id list"
  persistent_roots :: "root_id list"
  rooted_value :: "root_id \<Rightarrow> rooted"
  native :: store
  next_addr :: addr
  static_eternalBox :: "addr option"
  heap :: "(gcthing \<times> JSObject) list"
  next_thing :: gcthing
  finalized :: "gcthing list"
  events :: "event list"

definition and_then :: "error + 'a \<Rightarrow> ('a \<Rightarrow> error + 'b) \<Rightarrow> error + 'b" where
  "and_then r f = (case r of Inl e \<Rightarrow> Inl e | Inr x \<Rightarrow> f x)"

definition lift_fault :: "fault + 'a \<Rightarrow> error + 'a" where
  "lift_fault r = (case r of Inl f \<Rightarrow> Inl (Fault f) | Inr x \<Rightarrow> Inr x)"

subsection \<open>StackRootRegistry\<close>

text \<open>
  Modelled from the spec: \<open>push\<close> of the StackRootRegistry (the engine's list of
  \<open>JS::Rooted\<close> instances is not part of the example). The registry is a list of nodes;
  \<open>push\<close> prepends a node, at construction of a stack root.
\<close>

definition push :: "'n \<Rightarrow> 'n list \<Rightarrow> 'n list" where
  "push n reg = n # reg"

text \<open>
  Modelled from the spec: \<open>pop\<close> of the StackRootRegistry removes the head, at
  destruction of a stack root; popping a node that is not the head is a protocol
  violation, which is detected.
\<close>

definition pop :: "'n \<Rightarrow> 'n list \<Rightarrow> error + 'n list" where
  "pop n reg =
     (case reg of
        [] \<Rightarrow> Inl LIFOViolation
      | h # rest \<Rightarrow> if h = n then Inr rest else Inl LIFOViolation)"

text \<open>Constructions in the order given, and destructions in the order given.\<close>

fun construct_all :: "'n list \<Rightarrow> 'n list \<Rightarrow> 'n list" where
  "construct_all [] reg = reg"
| "construct_all (n # ns) reg = construct_all ns (push n reg)"

fun destruct_all :: "'n list \<Rightarrow> 'n list \<Rightarrow> error + 'n list" where
  "destruct_all [] reg = Inr reg"
| "destruct_all (n # ns) reg =
     (case pop n reg of Inl e \<Rightarrow> Inl e | Inr reg' \<Rightarrow> destruct_all ns reg')"

subsection \<open>Native allocation\<close>

text \<open>
  \<open>new SafeBox()\<close>, and the storage of a \<open>SafeBox\<close> held by value: a default-constructed
  box (undefined stashed value, empty container) at the next address.
\<close>

definition new_SafeBox :: "Runtime \<Rightarrow> addr \<times> Runtime" where
  "new_SafeBox rt =
     (next_addr rt,
      rt\<lparr>native := (native rt)(next_addr rt \<mapsto> \<lparr>stashed = UndefinedValue, container = []\<rparr>),
         next_addr := Suc (next_addr rt)\<rparr>)"

text \<open>\<open>js::MakeUnique<SafeBox>()\<close>: a new box, or null when the allocation fails.\<close>

definition MakeUnique :: "bool \<Rightarrow> Runtime \<Rightarrow> addr option \<times> Runtime" where
  "MakeUnique ok rt =
     (if ok then (case new_SafeBox rt of (a, rt') \<Rightarrow> (Some a, rt')) else (None, rt))"

text \<open>The box a root's value owns, released when the root's value is destroyed.\<close>

fun box_of :: "rooted \<Rightarrow> addr option" where
  "box_of (RootedBox p) = p"
| "box_of (RootedObject g) = None"

subsection \<open>Stack roots\<close>

text \<open>
  Modelled from the spec: \<open>construct(context, initial)\<close> of a RootedSlot (the constructor
  of \<open>JS::Rooted\<close> is the engine's) registers the slot in the registry and stores the
  initial value.
\<close>

definition Rooted_construct :: "root_id \<Rightarrow> rooted \<Rightarrow> Runtime \<Rightarrow> Runtime" where
  "Rooted_construct r v rt =
     rt\<lparr>stack_roots := push r (stack_roots rt), rooted_value := (rooted_value rt)(r := v)\<rparr>"

text \<open>
  Modelled from the spec: \<open>destruct\<close> of a RootedSlot (the destructor of \<open>JS::Rooted\<close>
  is the engine's) deregisters the slot; the value it held is then destroyed, which for a
  box releases the box.
\<close>

definition Rooted_destruct :: "root_id \<Rightarrow> Runtime \<Rightarrow> error + Runtime" where
  "Rooted_destruct r rt =
     and_then (pop r (stack_roots rt)) (\<lambda>reg.
     and_then (lift_fault (delete_SafeBox (native rt) (box_of (rooted_value rt r)))) (\<lambda>st.
       Inr (rt\<lparr>stack_roots := reg, native := st,
               rooted_value := (rooted_value rt)(r := RootedObject None)\<rparr>)))"

subsection \<open>Persistent roots and the collector's life cycle\<close>

text \<open>
  Modelled from the spec: \<open>init(context, initial)\<close> of a PersistentRoot
  (\<open>JS::PersistentRooted\<close> is the engine's) must run strictly after collector startup;
  it registers the root in the permanent root set and stores the initial value. A root
  that is not registered is an empty placeholder.
\<close>

definition PersistentRooted_init :: "root_id \<Rightarrow> rooted \<Rightarrow> Runtime \<Rightarrow> error + Runtime" where
  "PersistentRooted_init r v rt =
     (if phase rt \<noteq> Running then Inl RootBeforeStartup
      else if r \<in> set (persistent_roots rt) then Inl RootInitializedTwice
      else Inr (rt\<lparr>persistent_roots := r # persistent_roots rt,
                   rooted_value := (rooted_value rt)(r := v),
                   events := events rt @ [Registered r]\<rparr>))"

text \<open>
  Modelled from the spec: \<open>reset()\<close> of a PersistentRoot deregisters it and drops the
  value it held, which for a box releases the box; on a root that is not registered it
  does nothing. The destructor of a registered persistent root does the same.
\<close>

definition PersistentRooted_reset :: "root_id \<Rightarrow> Runtime \<Rightarrow> error + Runtime" where
  "PersistentRooted_reset r rt =
     (if r \<in> set (persistent_roots rt) then
        and_then (lift_fault (delete_SafeBox (native rt) (box_of (rooted_value rt r)))) (\<lambda>st.
          Inr (rt\<lparr>persistent_roots := removeAll r (persistent_roots rt), native := st,
                  rooted_value := (rooted_value rt)(r := RootedObject None),
                  events := events rt @ [Deregistered r]\<rparr>))
      else Inr rt)"

text \<open>Modelled from the spec: collector startup (\<open>JS_Init\<close> is the engine's).\<close>

definition JS_Init :: "Runtime \<Rightarrow> error + Runtime" where
  "JS_Init rt = Inr (rt\<lparr>phase := Running, events := events rt @ [Started]\<rparr>)"

text \<open>
  Modelled from the spec: collector shutdown (\<open>JS_ShutDown\<close> is the engine's). A
  persistent root that is still registered then is the fatal shutdown hazard.
\<close>

definition JS_ShutDown :: "Runtime \<Rightarrow> error + Runtime" where
  "JS_ShutDown rt =
     (if persistent_roots rt \<noteq> [] then Inl RootAtShutdown
      else Inr (rt\<lparr>phase := ShutDown, events := events rt @ [Stopped]\<rparr>))"

text \<open>
  The process before \<open>main\<close>: the two global persistent roots are declared and hold
  nothing, no collector exists, the static local is not constructed yet, nothing has
  happened.
\<close>

definition initial_Runtime :: Runtime where
  "initial_Runtime =
     \<lparr>phase = NotStarted, stack_roots = [], persistent_roots = [],
      rooted_value = (\<lambda>r. RootedObject None), native = Map.empty, next_addr = 0,
      static_eternalBox = None, heap = [], next_thing = 0, finalized = [], events = []\<rparr>"

subsection \<open>A collection pass\<close>

text \<open>
  Modelled from the spec: \<open>trace\<close> of one registry node (the engine's). An object
  pointer is one edge, the root's own storage, when it is not null; a box is traced by
  \<open>SafeBox::trace\<close> when the pointer to it is not null (the policies of
  \<open>js::UniquePtr\<close> and of \<open>std::shared_ptr\<close> skip a null target).
\<close>

definition trace_root :: "Runtime \<Rightarrow> root_id \<Rightarrow> JSTracer \<Rightarrow> fault + JSTracer" where
  "trace_root rt r trc =
     (case rooted_value rt r of
        RootedObject g \<Rightarrow> if g \<noteq> None then Inr (TraceEdge trc (RootSlot r) ''root'') else Inr trc
      | RootedBox p \<Rightarrow> if p \<noteq> None then call_trace (native rt) p trc else Inr trc)"

text \<open>
  Modelled from the spec: \<open>traceAll(Tracer)\<close> walks the registry from head to tail calling
  \<open>trace\<close> on each node.
\<close>

fun traceAll :: "Runtime \<Rightarrow> root_id list \<Rightarrow> JSTracer \<Rightarrow> fault + JSTracer" where
  "traceAll rt [] trc = Inr trc"
| "traceAll rt (r # rs) trc =
     (case trace_root rt r trc of Inl f \<Rightarrow> Inl f | Inr trc' \<Rightarrow> traceAll rt rs trc')"

text \<open>The GC thing a slot refers to, if it holds a reference to one.\<close>

definition referent :: "Runtime \<Rightarrow> slot_addr \<Rightarrow> gcthing option" where
  "referent rt slot =
     (case slot of
        StashedSlot a \<Rightarrow>
          (case native rt a of
             Some box \<Rightarrow> (case stashed box of GCThingValue g \<Rightarrow> Some g | _ \<Rightarrow> None)
           | None \<Rightarrow> None)
      | ElemSlot a i \<Rightarrow>
          (case native rt a of
             Some box \<Rightarrow>
               (if i < length (container box)
                then (case container box ! i of GCThingValue g \<Rightarrow> Some g | _ \<Rightarrow> None)
                else None)
           | None \<Rightarrow> None)
      | RootSlot r \<Rightarrow> (case rooted_value rt r of RootedObject g \<Rightarrow> g | RootedBox p \<Rightarrow> None))"

text \<open>
  Modelled from the spec: the marking tracer's \<open>visitEdge(slotAddress, label)\<close>. The
  marking state of a pass is the set of GC things found reachable so far; visiting an edge
  adds the thing the slot refers to.
\<close>

definition visitEdge :: "Runtime \<Rightarrow> slot_addr \<times> string \<Rightarrow> gcthing set \<Rightarrow> gcthing set" where
  "visitEdge rt v m = (case referent rt (fst v) of Some g \<Rightarrow> insert g m | None \<Rightarrow> m)"

text \<open>
  Modelled from the spec: the dispatch of the trace hook through the ClassDescriptor
  table (the engine's). The only class of the example with hooks is \<open>Custom\<close>; an
  object of any other class has no native data to trace.
\<close>

definition class_trace_hook :: "Runtime \<Rightarrow> JSObject \<Rightarrow> fault + JSTracer" where
  "class_trace_hook rt obj =
     (if clasp_name obj = cls_name clasp then
        (case trace (cOps clasp) of
           Some hook \<Rightarrow> hook (native rt) \<lparr>visits = []\<rparr> obj
         | None \<Rightarrow> Inr \<lparr>visits = []\<rparr>)
      else Inr \<lparr>visits = []\<rparr>)"

text \<open>
  Modelled from the spec: the GC things an object refers to are those its class trace
  hook shows the marking tracer.
\<close>

definition children :: "Runtime \<Rightarrow> JSObject \<Rightarrow> gcthing set" where
  "children rt obj =
     (case class_trace_hook rt obj of
        Inr trc \<Rightarrow> fold (visitEdge rt) (visits trc) {}
      | Inl f \<Rightarrow> {})"

text \<open>Modelled from the spec: the edges of the managed heap, from each cell to its children.\<close>

definition edges :: "Runtime \<Rightarrow> (gcthing \<times> gcthing) set" where
  "edges rt = (\<Union>c \<in> set (heap rt). Pair (fst c) ` children rt (snd c))"

text \<open>The GC things one root refers to: what marking finds when it traces that root.\<close>

definition root_referents :: "Runtime \<Rightarrow> root_id \<Rightarrow> gcthing set" where
  "root_referents rt r =
     (case trace_root rt r \<lparr>visits = []\<rparr> of
        Inr trc \<Rightarrow> fold (visitEdge rt) (visits trc) {}
      | Inl f \<Rightarrow> {})"

text \<open>
  Modelled from the spec: a collection walks the stack root registry and the persistent
  root set.
\<close>

definition all_roots :: "Runtime \<Rightarrow> root_id list" where
  "all_roots rt = stack_roots rt @ persistent_roots rt"

text \<open>Modelled from the spec: the GC things the roots refer to, found by \<open>traceAll\<close>.\<close>

definition root_set :: "Runtime \<Rightarrow> gcthing set" where
  "root_set rt =
     (case traceAll rt (all_roots rt) \<lparr>visits = []\<rparr> of
        Inr trc \<Rightarrow> fold (visitEdge rt) (visits trc) {}
      | Inl f \<Rightarrow> {})"

text \<open>
  Modelled from the spec: a collection finds every reachable edge from the roots through
  the class trace hooks. A GC thing is marked when a trace path from a root reaches it.
\<close>

definition marked :: "Runtime \<Rightarrow> gcthing set" where
  "marked rt = root_set rt \<union> (edges rt)\<^sup>+ `` root_set rt"

text \<open>
  Modelled from the spec: the pass invokes the trace hook of every cell it keeps; a native
  fault in one of them is a fault of the pass.
\<close>

fun check_hooks :: "Runtime \<Rightarrow> (gcthing \<times> JSObject) list \<Rightarrow> fault + unit" where
  "check_hooks rt [] = Inr ()"
| "check_hooks rt (c # cs) =
     (case class_trace_hook rt (snd c) of Inl f \<Rightarrow> Inl f | Inr trc \<Rightarrow> check_hooks rt cs)"

text \<open>
  Modelled from the spec: the finalize hook of an unreachable object, dispatched through
  its class, is invoked during the pass that finds it unreachable (foreground
  finalization), and the object is reclaimed. The cells are given in heap order; each
  invocation is logged.
\<close>

fun finalize_dead ::
  "store \<Rightarrow> (gcthing \<times> JSObject) list \<Rightarrow> gcthing list \<Rightarrow> fault + (store \<times> gcthing list)" where
  "finalize_dead st [] log = Inr (st, log)"
| "finalize_dead st (c # cs) log =
     (if clasp_name (snd c) = cls_name clasp then
        (case finalize (cOps clasp) of
           Some hook \<Rightarrow>
             (case hook st (snd c) of
                Inl f \<Rightarrow> Inl f
              | Inr st' \<Rightarrow> finalize_dead st' cs (log @ [fst c]))
         | None \<Rightarrow> finalize_dead st cs log)
      else finalize_dead st cs log)"

text \<open>Modelled from the spec: the cells a pass keeps are the marked ones.\<close>

definition live_cells :: "Runtime \<Rightarrow> (gcthing \<times> JSObject) list" where
  "live_cells rt = filter (\<lambda>c. fst c \<in> marked rt) (heap rt)"

text \<open>Modelled from the spec: the cells a pass reclaims are those no trace path reaches.\<close>

definition dead_cells :: "Runtime \<Rightarrow> (gcthing \<times> JSObject) list" where
  "dead_cells rt = filter (\<lambda>c. fst c \<notin> marked rt) (heap rt)"

text \<open>
  Modelled from the spec: one forced, full, non-incremental collection pass (\<open>JS_GC\<close> is
  the engine's): trace the roots, mark, invoke the finalize hooks of the cells that are
  not marked and reclaim them.
\<close>

definition JS_GC :: "Runtime \<Rightarrow> error + Runtime" where
  "JS_GC rt =
     and_then (lift_fault (traceAll rt (all_roots rt) \<lparr>visits = []\<rparr>)) (\<lambda>trc.
     and_then (lift_fault (check_hooks rt (live_cells rt))) (\<lambda>u.
     and_then (lift_fault (finalize_dead (native rt) (dead_cells rt) (finalized rt))) (\<lambda>r.
       Inr (rt\<lparr>native := fst r, heap := live_cells rt, finalized := snd r\<rparr>))))"

text \<open>A number of forced collection passes in a row.\<close>

fun gc_passes :: "nat \<Rightarrow> Runtime \<Rightarrow> error + Runtime" where
  "gc_passes 0 rt = Inr rt"
| "gc_passes (Suc n) rt = and_then (JS_GC rt) (gc_passes n)"

subsection \<open>A relocating pass\<close>

text \<open>
  Modelled from the spec: a moving pass may relocate live objects; \<open>fwd\<close> gives the new
  address of each cell, and a reference to a cell is fixed up to the forwarded address.
\<close>

definition forward :: "(gcthing \<Rightarrow> gcthing) \<Rightarrow> Value \<Rightarrow> Value" where
  "forward fwd v = (case v of GCThingValue g \<Rightarrow> GCThingValue (fwd g) | _ \<Rightarrow> v)"

text \<open>
  Modelled from the spec: the tracer of the fix-up is shown a slot by address, as
  \<open>JS::TraceEdge\<close> is, and rewrites the reference the slot holds.
\<close>

definition fixup_slot :: "(gcthing \<Rightarrow> gcthing) \<Rightarrow> slot_addr \<Rightarrow> Runtime \<Rightarrow> Runtime" where
  "fixup_slot fwd slot rt =
     (case slot of
        StashedSlot a \<Rightarrow>
          (case native rt a of
             Some box \<Rightarrow>
               rt\<lparr>native := (native rt)(a \<mapsto> box\<lparr>stashed := forward fwd (stashed box)\<rparr>)\<rparr>
           | None \<Rightarrow> rt)
      | ElemSlot a i \<Rightarrow>
          (case native rt a of
             Some box \<Rightarrow>
               (if i < length (container box)
                then rt\<lparr>native := (native rt)(a \<mapsto>
                         box\<lparr>container := (container box)[i := forward fwd (container box ! i)]\<rparr>)\<rparr>
                else rt)
           | None \<Rightarrow> rt)
      | RootSlot r \<Rightarrow>
          (case rooted_value rt r of
             RootedObject g \<Rightarrow>
               rt\<lparr>rooted_value := (rooted_value rt)(r := RootedObject (map_option fwd g))\<rparr>
           | RootedBox p \<Rightarrow> rt))"

text \<open>
  Modelled from the spec: the class trace hooks are invoked on every pass; these are
  their visits for a list of cells, in order.
\<close>

fun hook_visits ::
  "Runtime \<Rightarrow> (gcthing \<times> JSObject) list \<Rightarrow> fault + (slot_addr \<times> string) list" where
  "hook_visits rt [] = Inr []"
| "hook_visits rt (c # cs) =
     (case class_trace_hook rt (snd c) of
        Inl f \<Rightarrow> Inl f
      | Inr trc \<Rightarrow>
          (case hook_visits rt cs of Inl f \<Rightarrow> Inl f | Inr vs \<Rightarrow> Inr (visits trc @ vs)))"

text \<open>
  Modelled from the spec: the relocation of a moving pass. The cells move; \<open>traceAll\<close> is
  run again, with the class trace hooks, and every slot they show is fixed up, once even
  when it is shown several times.
\<close>

definition relocate :: "(gcthing \<Rightarrow> gcthing) \<Rightarrow> Runtime \<Rightarrow> error + Runtime" where
  "relocate fwd rt =
     and_then (lift_fault (traceAll rt (all_roots rt) \<lparr>visits = []\<rparr>)) (\<lambda>trc.
     and_then (lift_fault (hook_visits rt (heap rt))) (\<lambda>vs.
       Inr (fold (fixup_slot fwd) (remdups (map fst (visits trc @ vs)))
              (rt\<lparr>heap := map (\<lambda>c. (fwd (fst c), snd c)) (heap rt)\<rparr>))))"

text \<open>
  Modelled from the spec: the object a slot resolves to is the cell at the address the
  slot holds. A RootedSlot that holds an object pointer is the slot \<open>RootSlot\<close> of its
  root, and a Handle borrows that storage, so it resolves as the root does.
\<close>

definition resolve :: "Runtime \<Rightarrow> slot_addr \<Rightarrow> JSObject option" where
  "resolve rt slot = (case referent rt slot of Some g \<Rightarrow> map_of (heap rt) g | None \<Rightarrow> None)"

section \<open>The example functions\<close>

text \<open>
  What the program cannot decide itself: whether an allocation of the engine succeeds.
  \<open>js::MakeUnique\<close> returns null, \<open>boilerplate::CreateGlobal\<close> and \<open>JS_NewObject\<close>
  return a null object when they fail.
\<close>

record choices =
  heapSafe_ok :: bool
  globalPtrSafe_ok :: bool
  CreateGlobal_ok :: bool
  NewObject_ok :: bool

text \<open>Modelled from the spec: allocation by the engine, a new cell of the managed heap.\<close>

definition new_cell :: "JSObject \<Rightarrow> Runtime \<Rightarrow> gcthing \<times> Runtime" where
  "new_cell obj rt =
     (next_thing rt,
      rt\<lparr>heap := heap rt @ [(next_thing rt, obj)], next_thing := Suc (next_thing rt)\<rparr>)"

text \<open>
  Modelled from the spec: \<open>boilerplate::CreateGlobal\<close> is defined outside
  \<open>tracing.cpp\<close>; it gives a new global object, which has no native data, or null.
\<close>

definition CreateGlobal :: "bool \<Rightarrow> Runtime \<Rightarrow> gcthing option \<times> Runtime" where
  "CreateGlobal ok rt =
     (if ok then
        (case new_cell \<lparr>clasp_name = ''global'', slots = []\<rparr> rt of (g, rt') \<Rightarrow> (Some g, rt'))
      else (None, rt))"

text \<open>
  \<open>CustomTypeExample\<close>: \<open>stackSafe\<close> holds a box by value, \<open>heapSafe\<close> a box from
  \<open>js::MakeUnique\<close>; at \<open>return true\<close> the locals are destroyed in reverse order.
\<close>

definition CustomTypeExample :: "choices \<Rightarrow> Runtime \<Rightarrow> error + (bool \<times> Runtime)" where
  "CustomTypeExample ch rt =
     (case new_SafeBox rt of (a, rt1) \<Rightarrow>
      let rt2 = Rooted_construct stackSafe (RootedBox (Some a)) rt1 in
      case MakeUnique (heapSafe_ok ch) rt2 of (p, rt3) \<Rightarrow>
      let rt4 = Rooted_construct heapSafe (RootedBox p) rt3 in
      and_then (Rooted_destruct heapSafe rt4) (\<lambda>rt5.
      and_then (Rooted_destruct stackSafe rt5) (\<lambda>rt6.
        Inr (True, rt6))))"

text \<open>\<open>ExistingTypeExample\<close>: \<open>sharedSafe\<close> holds the box of \<open>std::make_shared\<close>.\<close>

definition ExistingTypeExample :: "Runtime \<Rightarrow> error + (bool \<times> Runtime)" where
  "ExistingTypeExample rt =
     (case new_SafeBox rt of (a, rt1) \<Rightarrow>
      let rt2 = Rooted_construct sharedSafe (RootedBox (Some a)) rt1 in
      and_then (Rooted_destruct sharedSafe rt2) (\<lambda>rt3.
        Inr (True, rt3)))"

text \<open>
  \<open>GlobalRootExample\<close>: \<open>init\<close> of \<open>globalPtrSafe\<close> with the result of \<open>js::MakeUnique\<close>;
  \<open>emplace\<close> of \<open>globalMaybeSafe\<close> constructs a persistent root that holds a box by value
  and registers it; then \<open>reset\<close> of both, \<open>globalMaybeSafe\<close> first.
\<close>

definition GlobalRootExample :: "choices \<Rightarrow> Runtime \<Rightarrow> error + (bool \<times> Runtime)" where
  "GlobalRootExample ch rt =
     (case MakeUnique (globalPtrSafe_ok ch) rt of (p, rt1) \<Rightarrow>
      and_then (PersistentRooted_init globalPtrSafe (RootedBox p) rt1) (\<lambda>rt2.
      case new_SafeBox rt2 of (a, rt3) \<Rightarrow>
      and_then (PersistentRooted_init globalMaybeSafe (RootedBox (Some a)) rt3) (\<lambda>rt4.
      and_then (PersistentRooted_reset globalMaybeSafe rt4) (\<lambda>rt5.
      and_then (PersistentRooted_reset globalPtrSafe rt5) (\<lambda>rt6.
        Inr (True, rt6))))))"

text \<open>
  \<open>EmbeddingRootExample\<close>: the constructor of \<open>EmbeddingContext\<close> registers \<open>memberSafe\<close>
  (a box by value) and \<open>memberObjPtr\<close> (a null object pointer); the \<open>js::UniquePtr\<close> that
  owns the context deletes it at \<open>return true\<close>, which destroys the members in reverse
  order.
\<close>

definition EmbeddingRootExample :: "Runtime \<Rightarrow> error + (bool \<times> Runtime)" where
  "EmbeddingRootExample rt =
     (case new_SafeBox rt of (a, rt1) \<Rightarrow>
      and_then (PersistentRooted_init memberSafe (RootedBox (Some a)) rt1) (\<lambda>rt2.
      and_then (PersistentRooted_init memberObjPtr (RootedObject None) rt2) (\<lambda>rt3.
      and_then (PersistentRooted_reset memberObjPtr rt3) (\<lambda>rt4.
      and_then (PersistentRooted_reset memberSafe rt4) (\<lambda>rt5.
        Inr (True, rt5))))))"

text \<open>
  \<open>CustomObject::create\<close> as a step of the running process: the object
  \<open>CustomObject_create\<close> builds is a new cell of the managed heap, held by the local
  root \<open>obj\<close> until the function returns it as a raw pointer.
\<close>

definition CustomObject_create_in ::
  "bool \<Rightarrow> addr option \<Rightarrow> addr option \<Rightarrow> Runtime \<Rightarrow> error + (gcthing option \<times> Runtime)" where
  "CustomObject_create_in ok box1 box2 rt =
     (case CustomObject_create ok box1 box2 of
        None \<Rightarrow>
          and_then (Rooted_destruct obj_var (Rooted_construct obj_var (RootedObject None) rt))
            (\<lambda>rt'. Inr (None, rt'))
      | Some obj \<Rightarrow>
          (case new_cell obj rt of (g, rt1) \<Rightarrow>
           and_then (Rooted_destruct obj_var (Rooted_construct obj_var (RootedObject (Some g)) rt1))
             (\<lambda>rt'. Inr (Some g, rt'))))"

text \<open>
  \<open>static SafeBox eternalBox{}\<close>: one box for the whole process, constructed the first
  time the declaration is reached and never destroyed.
\<close>

definition get_eternalBox :: "Runtime \<Rightarrow> addr \<times> Runtime" where
  "get_eternalBox rt =
     (case static_eternalBox rt of
        Some e \<Rightarrow> (e, rt)
      | None \<Rightarrow> (case new_SafeBox rt of (e, rt') \<Rightarrow> (e, rt'\<lparr>static_eternalBox := Some e\<rparr>)))"

text \<open>
  \<open>CustomObjectExample\<close>: the global object is rooted for the whole body; \<open>box\<close> is
  allocated with \<open>new\<close>, \<open>eternalBox\<close> is the static local; the object created is held
  by a raw pointer only when \<open>JS_GC\<close> runs.
\<close>

definition CustomObjectExample ::
  "choices \<Rightarrow> Runtime \<Rightarrow> error + (bool \<times> Runtime)" where
  "CustomObjectExample ch rt =
     (case CreateGlobal (CreateGlobal_ok ch) rt of (g, rt1) \<Rightarrow>
      let rt2 = Rooted_construct global_var (RootedObject g) rt1 in
      if g = None then
        and_then (Rooted_destruct global_var rt2) (\<lambda>rt'. Inr (False, rt'))
      else
        case new_SafeBox rt2 of (box, rt3) \<Rightarrow>
        case get_eternalBox rt3 of (eternalBox, rt4) \<Rightarrow>
        and_then (CustomObject_create_in (NewObject_ok ch) (Some box) (Some eternalBox) rt4) (\<lambda>r.
          if fst r = None then
            and_then (Rooted_destruct global_var (snd r)) (\<lambda>rt'. Inr (False, rt'))
          else
            and_then (JS_GC (snd r)) (\<lambda>rt6.
            and_then (Rooted_destruct global_var rt6) (\<lambda>rt'. Inr (True, rt')))))"

text \<open>\<open>TracingExample\<close>: the five examples in order, stopping at the first that fails.\<close>

definition TracingExample :: "choices \<Rightarrow> Runtime \<Rightarrow> error + (bool \<times> Runtime)" where
  "TracingExample ch rt =
     and_then (CustomTypeExample ch rt) (\<lambda>r1.
       if \<not> fst r1 then Inr (False, snd r1) else
     and_then (ExistingTypeExample (snd r1)) (\<lambda>r2.
       if \<not> fst r2 then Inr (False, snd r2) else
     and_then (GlobalRootExample ch (snd r2)) (\<lambda>r3.
       if \<not> fst r3 then Inr (False, snd r3) else
     and_then (EmbeddingRootExample (snd r3)) (\<lambda>r4.
       if \<not> fst r4 then Inr (False, snd r4) else
     and_then (CustomObjectExample ch (snd r4)) (\<lambda>r5.
       if \<not> fst r5 then Inr (False, snd r5) else
       Inr (True, snd r5))))))"

text \<open>
  Modelled from the spec: \<open>boilerplate::RunExample\<close> is defined outside \<open>tracing.cpp\<close>.
  The life cycle of the spec is collector startup, then the workload, then collector
  shutdown. Whether the collector is shut down after a task that reports failure is not
  said; it is the parameter \<open>shutdown_after_failure\<close>.
\<close>

definition RunExample ::
  "bool \<Rightarrow> (Runtime \<Rightarrow> error + (bool \<times> Runtime)) \<Rightarrow> Runtime \<Rightarrow> error + (bool \<times> Runtime)" where
  "RunExample shutdown_after_failure task rt =
     and_then (JS_Init rt) (\<lambda>rt1.
     and_then (task rt1) (\<lambda>r.
       if fst r \<or> shutdown_after_failure then
         and_then (JS_ShutDown (snd r)) (\<lambda>rt2. Inr (fst r, rt2))
       else Inr (False, snd r)))"

text \<open>
  \<open>main\<close>: exit status 1 when the example fails, else 0. The first parameter is that of
  \<open>RunExample\<close>.
\<close>

definition main :: "bool \<Rightarrow> choices \<Rightarrow> error + (int \<times> Runtime)" where
  "main shutdown_after_failure ch =
     and_then (RunExample shutdown_after_failure (TracingExample ch) initial_Runtime) (\<lambda>r.
       if \<not> fst r then Inr (1, snd r) else Inr (0, snd r))"

section \<open>Concrete inputs\<close>

text \<open>
  A native memory with two boxes: the one at address 1 stashes a GC thing and holds two
  container elements, the one at address 2 is a freshly constructed \<open>SafeBox\<close>.
\<close>

definition example_store :: store where
  "example_store =
     [1 \<mapsto> \<lparr>stashed = GCThingValue 7, container = [GCThingValue 8, UndefinedValue]\<rparr>,
      2 \<mapsto> \<lparr>stashed = UndefinedValue, container = []\<rparr>]"

text \<open>The execution in which every allocation succeeds.\<close>

definition all_ok :: choices where
  "all_ok = \<lparr>heapSafe_ok = True, globalPtrSafe_ok = True, CreateGlobal_ok = True,
             NewObject_ok = True\<rparr>"

text \<open>
  The state in which \<open>CustomObjectExample\<close> calls \<open>JS_GC\<close> when it is run in a process
  that has just started the collector and every allocation succeeds: the global object is
  cell 0 and is rooted, \<open>box\<close> is at address 0 and \<open>eternalBox\<close> at address 1, the
  CustomObject is cell 1 and no root holds it.
\<close>

definition at_JS_GC :: Runtime where
  "at_JS_GC =
     \<lparr>phase = Running, stack_roots = [global_var], persistent_roots = [],
      rooted_value = (\<lambda>r. RootedObject None)(global_var := RootedObject (Some 0)),
      native = [0 \<mapsto> \<lparr>stashed = UndefinedValue, container = []\<rparr>,
                1 \<mapsto> \<lparr>stashed = UndefinedValue, container = []\<rparr>],
      next_addr = 2, static_eternalBox = Some 1,
      heap = [(0, \<lparr>clasp_name = ''global'', slots = []\<rparr>),
              (1, \<lparr>clasp_name = ''Custom'',
                   slots = [PrivateValue (Some 0), PrivateValue (Some 1)]\<rparr>)],
      next_thing = 2, finalized = [], events = []\<rparr>"

text \<open>
  A running process in which \<open>globalPtrSafe\<close> is registered and holds a box that stashes
  cell 0 and has cell 1 in its container; cell 2 is referred to by nothing.
\<close>

definition persistent_example :: Runtime where
  "persistent_example =
     \<lparr>phase = Running, stack_roots = [], persistent_roots = [globalPtrSafe],
      rooted_value = (\<lambda>r. RootedObject None)(globalPtrSafe := RootedBox (Some 0)),
      native = [0 \<mapsto> \<lparr>stashed = GCThingValue 0, container = [GCThingValue 1]\<rparr>],
      next_addr = 1, static_eternalBox = None,
      heap = [(0, \<lparr>clasp_name = ''Object'', slots = []\<rparr>),
              (1, \<lparr>clasp_name = ''Array'', slots = []\<rparr>),
              (2, \<lparr>clasp_name = ''Function'', slots = []\<rparr>)],
      next_thing = 3, finalized = [], events = [Started, Registered globalPtrSafe]\<rparr>"

text \<open>
  The object \<open>CustomObject::create\<close> gives when it is handed the same box for both
  slots, and a running process that holds it as \<open>at_JS_GC\<close> holds its object: the global
  object is cell 0 and is rooted, the one box is at address 0, the object is cell 1 and no
  root holds it.
\<close>

definition aliased_object :: JSObject where
  "aliased_object =
     \<lparr>clasp_name = ''Custom'', slots = [PrivateValue (Some 0), PrivateValue (Some 0)]\<rparr>"

definition aliased_at_JS_GC :: Runtime where
  "aliased_at_JS_GC =
     \<lparr>phase = Running, stack_roots = [global_var], persistent_roots = [],
      rooted_value = (\<lambda>r. RootedObject None)(global_var := RootedObject (Some 0)),
      native = [0 \<mapsto> \<lparr>stashed = UndefinedValue, container = []\<rparr>],
      next_addr = 1, static_eternalBox = None,
      heap = [(0, \<lparr>clasp_name = ''global'', slots = []\<rparr>), (1, aliased_object)],
      next_thing = 2, finalized = [], events = []\<rparr>"

text \<open>The same process after the pass: the object and the one box are gone.\<close>

definition aliased_after_GC :: Runtime where
  "aliased_after_GC =
     \<lparr>phase = Running, stack_roots = [global_var], persistent_roots = [],
      rooted_value = (\<lambda>r. RootedObject None)(global_var := RootedObject (Some 0)),
      native = Map.empty,
      next_addr = 1, static_eternalBox = None,
      heap = [(0, \<lparr>clasp_name = ''global'', slots = []\<rparr>)],
      next_thing = 2, finalized = [1], events = []\<rparr>"

section \<open>Properties of SafeBox::trace\<close>

lemma clasp_hooks [simp]:
  "finalize (cOps clasp) = Some CustomObject_finalize"
  "trace (cOps clasp) = Some CustomObject_trace"
  by (simp_all add: clasp_def classOps_def)

lemma visits_TraceEdge: "visits (TraceEdge trc s n) = visits trc @ [(s, n)]"
  by (simp add: TraceEdge_def)

lemma visits_trace_container:
  "visits (trace_container a i elems trc) =
     visits trc @ map (\<lambda>k. (ElemSlot a k, ''container value'')) [i..<i + length elems]"
proof (induction elems arbitrary: i trc)
  case Nil
  show ?case by simp
next
  case (Cons e es)
  have "[i..<i + length (e # es)] = i # [Suc i..<Suc i + length es]"
    using upt_conv_Cons [of i "i + Suc (length es)"] by simp
  then show ?case
    by (simp add: Cons.IH visits_TraceEdge)
qed

lemma visits_SafeBox_trace:
  "visits (SafeBox_trace a box trc) = visits trc @ SafeBox_edges a box"
  by (simp add: SafeBox_trace_def SafeBox_edges_def visits_trace_container visits_TraceEdge)

lemma length_SafeBox_edges: "length (SafeBox_edges a box) = length (container box) + 1"
  by (simp add: SafeBox_edges_def)

lemma slots_SafeBox_edges: "fst ` set (SafeBox_edges a box) = heap_slots a box"
  by (auto simp: SafeBox_edges_def heap_slots_def image_iff)

text \<open>
  C4. One call of \<open>SafeBox::trace\<close> on a box whose container has \<open>n\<close> elements adds exactly
  \<open>n + 1\<close> visits to the tracer: first the stashed slot, then each container element in
  order; the slots visited are exactly the \<open>JS::Heap\<close> fields of the box.
\<close>

theorem SafeBox_trace_visits_all:
  "length (visits (SafeBox_trace a box trc)) = length (visits trc) + (length (container box) + 1)
   \<and> visits (SafeBox_trace a box trc) =
       visits trc @ (StashedSlot a, ''stashed value'') #
         map (\<lambda>i. (ElemSlot a i, ''container value'')) [0..<length (container box)]
   \<and> fst ` set (drop (length (visits trc)) (visits (SafeBox_trace a box trc))) = heap_slots a box"
  using slots_SafeBox_edges [of a box]
  by (simp add: visits_SafeBox_trace length_SafeBox_edges)
    (simp add: SafeBox_edges_def)

text \<open>
  C5. The pass-through policy of \<open>std::shared_ptr<T>\<close>: with no current target, \<open>trace\<close>
  returns the tracer as it was whatever the wrapped policy is (the wrapped policy is not
  consulted, so nothing is visited), \<open>needsSweep\<close> is false and \<open>isValid\<close> is true; with a
  target, each operation is the wrapped policy's on that target.
\<close>

theorem shared_ptr_policy_pass_through:
  "shared_ptr_trace pol trc None name = trc
   \<and> shared_ptr_needsSweep pol None = False
   \<and> shared_ptr_isValid pol None = True
   \<and> shared_ptr_trace pol trc (Some target) name = policy_trace pol trc target name
   \<and> shared_ptr_needsSweep pol (Some target) = policy_needsSweep pol target
   \<and> shared_ptr_isValid pol (Some target) = policy_isValid pol target"
  by (simp add: shared_ptr_trace_def shared_ptr_needsSweep_def shared_ptr_isValid_def)

section \<open>Properties of the CustomObject hooks\<close>

lemma created_boxes:
  "CustomObject_create True p q = Some obj \<Longrightarrow> ownedBox obj = p \<and> unownedBox obj = q"
  by (auto simp: CustomObject_create_def JS_NewObject_def JS_SetReservedSlot_def clasp_def
      SlotCount_def OwnedBoxSlot_def UnownedBoxSlot_def ownedBox_def unownedBox_def
      GetMaybePtrFromReservedSlot_def numeral_2_eq_2)

lemma create_succeeds: "\<exists>obj. CustomObject_create True p q = Some obj"
  by (simp add: CustomObject_create_def JS_NewObject_def)

lemma CustomObject_trace_result:
  assumes "live_ptr st (ownedBox obj)" and "live_ptr st (unownedBox obj)"
  shows "\<exists>trc'. CustomObject_trace st trc obj = Inr trc' \<and>
           visits trc' =
             visits trc @ visits_behind st (ownedBox obj) @ visits_behind st (unownedBox obj)"
  using assms
  by (auto simp: CustomObject_trace_def Let_def live_ptr_def visits_behind_def call_trace_def
      visits_SafeBox_trace split: option.splits)

lemma set_visits_behind: "fst ` set (visits_behind st p) = slots_behind st p"
  by (simp add: visits_behind_def slots_behind_def slots_SafeBox_edges split: option.splits)

text \<open>
  C2. When both box pointers of a CustomObject are usable (null, or the address of an
  allocated box), the trace hook returns without fault, and what it visits is the visits of
  \<open>SafeBox::trace\<close> on the owned box followed by those on the unowned box: the set of
  slots it visits is exactly the \<open>JS::Heap\<close> fields (the stashed slot and every container
  element) of the non-null boxes. The hook is a function of the object and of native
  memory, so this holds on every pass that invokes it.
\<close>

theorem CustomObject_trace_visits_both_boxes:
  assumes "live_ptr st (ownedBox obj)" and "live_ptr st (unownedBox obj)"
  shows "\<exists>trc'. CustomObject_trace st trc obj = Inr trc' \<and>
           visits trc' =
             visits trc @ visits_behind st (ownedBox obj) @ visits_behind st (unownedBox obj) \<and>
           visited_since (length (visits trc)) trc' =
             slots_behind st (ownedBox obj) \<union> slots_behind st (unownedBox obj)"
proof -
  obtain trc' where r: "CustomObject_trace st trc obj = Inr trc'"
    and v: "visits trc' =
              visits trc @ visits_behind st (ownedBox obj) @ visits_behind st (unownedBox obj)"
    using CustomObject_trace_result [OF assms] by blast
  have "visited_since (length (visits trc)) trc' =
          slots_behind st (ownedBox obj) \<union> slots_behind st (unownedBox obj)"
    by (simp add: visited_since_def v image_Un set_visits_behind)
  with r v show ?thesis by blast
qed

theorem CustomObject_trace_visits_both_boxes_witness:
  "\<exists>obj trc'. CustomObject_create True (Some 1) (Some 2) = Some obj \<and>
     CustomObject_trace example_store \<lparr>visits = []\<rparr> obj = Inr trc' \<and>
     visits trc' =
       [(StashedSlot 1, ''stashed value''), (ElemSlot 1 0, ''container value''),
        (ElemSlot 1 1, ''container value''), (StashedSlot 2, ''stashed value'')] \<and>
     visited_since 0 trc' = {StashedSlot 1, ElemSlot 1 0, ElemSlot 1 1, StashedSlot 2}"
proof -
  obtain obj where c: "CustomObject_create True (Some 1) (Some 2) = Some obj"
    using create_succeeds by blast
  have b: "ownedBox obj = Some 1" "unownedBox obj = Some 2"
    using created_boxes [OF c] by simp_all
  have l: "live_ptr example_store (ownedBox obj)" "live_ptr example_store (unownedBox obj)"
    by (simp_all add: b live_ptr_def example_store_def)
  show ?thesis
    using CustomObject_trace_visits_both_boxes [OF l, of "\<lparr>visits = []\<rparr>"] c
    by (auto simp: b visits_behind_def slots_behind_def example_store_def SafeBox_edges_def
        heap_slots_def lessThan_Suc numeral_2_eq_2)
qed

text \<open>
  C10. The trace hook never calls \<open>trace\<close> through a null pointer, whatever the slots
  hold. A null owned (unowned) pointer is skipped: the hook then does what tracing the
  other box alone does, and with both null it returns the tracer unchanged. The finalize
  hook on a null owned pointer returns native memory unchanged, without fault.
\<close>

theorem CustomObject_null_slots_safe:
  "CustomObject_trace st trc obj \<noteq> Inl NullDereference
   \<and> (ownedBox obj = None \<longrightarrow>
        CustomObject_trace st trc obj =
          (if unownedBox obj \<noteq> None then call_trace st (unownedBox obj) trc else Inr trc))
   \<and> (unownedBox obj = None \<longrightarrow>
        CustomObject_trace st trc obj =
          (if ownedBox obj \<noteq> None then call_trace st (ownedBox obj) trc else Inr trc))
   \<and> (ownedBox obj = None \<and> unownedBox obj = None \<longrightarrow> CustomObject_trace st trc obj = Inr trc)
   \<and> (ownedBox obj = None \<longrightarrow> CustomObject_finalize st obj = Inr st)"
  by (auto simp: CustomObject_trace_def CustomObject_finalize_def delete_SafeBox_def
      call_trace_def Let_def split: option.splits sum.splits)

theorem CustomObject_null_slots_safe_witness:
  "\<exists>obj. CustomObject_create True None None = Some obj \<and>
     ownedBox obj = None \<and> unownedBox obj = None \<and>
     CustomObject_trace example_store \<lparr>visits = []\<rparr> obj = Inr \<lparr>visits = []\<rparr> \<and>
     CustomObject_finalize example_store obj = Inr example_store"
proof -
  obtain obj where c: "CustomObject_create True None None = Some obj"
    using create_succeeds by blast
  have b: "ownedBox obj = None" "unownedBox obj = None"
    using created_boxes [OF c] by simp_all
  show ?thesis
    using CustomObject_null_slots_safe [of example_store "\<lparr>visits = []\<rparr>" obj] c b
    by simp
qed

section \<open>The example, run\<close>

lemma CustomTypeExample_frame:
  "\<exists>rt'. CustomTypeExample ch rt = Inr (True, rt') \<and> phase rt' = phase rt \<and>
     stack_roots rt' = stack_roots rt \<and> persistent_roots rt' = persistent_roots rt \<and>
     heap rt' = heap rt \<and> finalized rt' = finalized rt \<and> events rt' = events rt"
  by (simp add: CustomTypeExample_def new_SafeBox_def MakeUnique_def Rooted_construct_def
      Rooted_destruct_def and_then_def lift_fault_def push_def pop_def delete_SafeBox_def Let_def)

lemma ExistingTypeExample_frame:
  "\<exists>rt'. ExistingTypeExample rt = Inr (True, rt') \<and> phase rt' = phase rt \<and>
     stack_roots rt' = stack_roots rt \<and> persistent_roots rt' = persistent_roots rt \<and>
     heap rt' = heap rt \<and> finalized rt' = finalized rt \<and> events rt' = events rt"
  by (simp add: ExistingTypeExample_def new_SafeBox_def Rooted_construct_def
      Rooted_destruct_def and_then_def lift_fault_def push_def pop_def delete_SafeBox_def Let_def)

lemma GlobalRootExample_frame:
  assumes "phase rt = Running" and "globalPtrSafe \<notin> set (persistent_roots rt)"
    and "globalMaybeSafe \<notin> set (persistent_roots rt)"
  shows "\<exists>rt'. GlobalRootExample ch rt = Inr (True, rt') \<and> phase rt' = phase rt \<and>
     stack_roots rt' = stack_roots rt \<and> persistent_roots rt' = persistent_roots rt \<and>
     heap rt' = heap rt \<and> finalized rt' = finalized rt \<and>
     events rt' = events rt @
       [Registered globalPtrSafe, Registered globalMaybeSafe,
        Deregistered globalMaybeSafe, Deregistered globalPtrSafe]"
  using assms
  by (simp add: GlobalRootExample_def new_SafeBox_def MakeUnique_def
      PersistentRooted_init_def PersistentRooted_reset_def and_then_def lift_fault_def
      delete_SafeBox_def Let_def)

lemma EmbeddingRootExample_frame:
  assumes "phase rt = Running" and "memberSafe \<notin> set (persistent_roots rt)"
    and "memberObjPtr \<notin> set (persistent_roots rt)"
  shows "\<exists>rt'. EmbeddingRootExample rt = Inr (True, rt') \<and> phase rt' = phase rt \<and>
     stack_roots rt' = stack_roots rt \<and> persistent_roots rt' = persistent_roots rt \<and>
     heap rt' = heap rt \<and> finalized rt' = finalized rt \<and>
     events rt' = events rt @
       [Registered memberSafe, Registered memberObjPtr,
        Deregistered memberObjPtr, Deregistered memberSafe]"
  using assms
  by (simp add: EmbeddingRootExample_def new_SafeBox_def
      PersistentRooted_init_def PersistentRooted_reset_def and_then_def lift_fault_def
      delete_SafeBox_def Let_def)

lemmas run_defs = TracingExample_def CustomTypeExample_def ExistingTypeExample_def
  GlobalRootExample_def EmbeddingRootExample_def CustomObjectExample_def
  CustomObject_create_in_def get_eternalBox_def CreateGlobal_def new_cell_def new_SafeBox_def MakeUnique_def Rooted_construct_def
  Rooted_destruct_def PersistentRooted_init_def PersistentRooted_reset_def JS_Init_def
  JS_ShutDown_def initial_Runtime_def and_then_def lift_fault_def push_def pop_def
  delete_SafeBox_def

lemmas gc_defs = JS_GC_def live_cells_def dead_cells_def marked_def root_set_def edges_def children_def class_trace_hook_def
  all_roots_def trace_root_def visitEdge_def referent_def TraceEdge_def CustomObject_trace_def
  CustomObject_finalize_def call_trace_def SafeBox_trace_def clasp_def classOps_def
  CustomObject_create_def JS_NewObject_def JS_SetReservedSlot_def ownedBox_def unownedBox_def
  GetMaybePtrFromReservedSlot_def OwnedBoxSlot_def UnownedBoxSlot_def SlotCount_def

text \<open>The events of a whole run of the task, after startup.\<close>

lemma TracingExample_runs:
  "\<exists>ok rt. TracingExample ch (initial_Runtime\<lparr>phase := Running, events := [Started]\<rparr>) =
             Inr (ok, rt) \<and>
     persistent_roots rt = [] \<and> stack_roots rt = [] \<and> phase rt = Running \<and>
     events rt =
       [Started,
        Registered globalPtrSafe, Registered globalMaybeSafe,
        Deregistered globalMaybeSafe, Deregistered globalPtrSafe,
        Registered memberSafe, Registered memberObjPtr,
        Deregistered memberObjPtr, Deregistered memberSafe]"
  by (cases ch) (auto simp add: run_defs gc_defs Let_def numeral_2_eq_2)

lemma main_runs:
  "\<exists>code rt. main sd ch = Inr (code, rt) \<and> persistent_roots rt = [] \<and> stack_roots rt = [] \<and>
     events rt =
       [Started,
        Registered globalPtrSafe, Registered globalMaybeSafe,
        Deregistered globalMaybeSafe, Deregistered globalPtrSafe,
        Registered memberSafe, Registered memberObjPtr,
        Deregistered memberObjPtr, Deregistered memberSafe] @
       (if code = 0 \<or> sd then [Stopped] else [])"
  by (cases ch) (simp add: main_def RunExample_def run_defs gc_defs Let_def numeral_2_eq_2)

section \<open>The stack root registry\<close>

lemma destruct_all_construct_all: "destruct_all (rev ns) (construct_all ns reg) = Inr reg"
proof (induction ns arbitrary: reg)
  case Nil
  show ?case by simp
next
  case (Cons n ns)
  have step: "destruct_all (xs @ [n]) r =
                (case destruct_all xs r of Inl e \<Rightarrow> Inl e | Inr r' \<Rightarrow> destruct_all [n] r')"
    for xs r
    by (induction xs arbitrary: r) (auto split: sum.splits)
  show ?case
    by (simp add: step Cons.IH push_def pop_def)
qed

lemma destruct_all_Inr: "destruct_all ds reg = Inr reg' \<Longrightarrow> reg = ds @ reg'"
proof (induction ds arbitrary: reg)
  case Nil
  then show ?case by simp
next
  case (Cons d ds)
  then show ?case
    by (auto simp: pop_def split: sum.splits list.splits if_splits)
qed

lemma destruct_all_Inl: "destruct_all ds reg = Inl e \<Longrightarrow> e = LIFOViolation"
proof (induction ds arbitrary: reg)
  case Nil
  then show ?case by simp
next
  case (Cons d ds)
  then show ?case
    by (auto simp: pop_def split: sum.splits list.splits if_splits)
qed

lemma construct_all_rev: "construct_all ns reg = rev ns @ reg"
  by (induction ns arbitrary: reg) (simp_all add: push_def)

text \<open>
  C1. Constructing the stack roots \<open>ns\<close> in order and destroying them in exactly the
  reverse order leaves the registry as it was, empty when it started empty. A pop of a
  node that is not the head (or from an empty registry) is the violation, not a removal;
  so destroying all the roots in any order other than the reverse of their construction is
  detected. The stack roots of the example itself follow the discipline: every execution
  of \<open>main\<close> ends without a violation and with an empty registry, whether or not the
  collector is shut down after a failed task.
\<close>

theorem registry_LIFO:
  "destruct_all (rev ns) (construct_all ns []) = Inr []
   \<and> destruct_all (rev ns) (construct_all ns reg) = Inr reg
   \<and> pop n [] = Inl LIFOViolation
   \<and> (n \<noteq> h \<longrightarrow> pop n (h # rest) = Inl LIFOViolation)
   \<and> (length ds = length ns \<and> ds \<noteq> rev ns \<longrightarrow>
        destruct_all ds (construct_all ns []) = Inl LIFOViolation)
   \<and> (\<exists>code rt. main sd ch = Inr (code, rt) \<and> stack_roots rt = [])"
proof -
  have out_of_order: "destruct_all ds (construct_all ns []) = Inl LIFOViolation"
    if len: "length ds = length ns" and ne: "ds \<noteq> rev ns"
  proof (cases "destruct_all ds (construct_all ns [])")
    case (Inl e)
    then show ?thesis using destruct_all_Inl by blast
  next
    case (Inr reg')
    then have "rev ns = ds @ reg'"
      using destruct_all_Inr [of ds "construct_all ns []" reg'] by (simp add: construct_all_rev)
    with len have "ds = rev ns"
      by (metis append_eq_append_conv append_Nil2 length_rev)
    with ne show ?thesis by simp
  qed
  have "\<exists>code rt. main sd ch = Inr (code, rt) \<and> stack_roots rt = []"
    using main_runs [of sd ch] by blast
  then show ?thesis
    using out_of_order by (simp add: destruct_all_construct_all pop_def)
qed

theorem registry_LIFO_witness:
  "destruct_all [heapSafe, stackSafe] (construct_all [stackSafe, heapSafe] []) = Inr []
   \<and> pop stackSafe [heapSafe, stackSafe] = Inl LIFOViolation
   \<and> destruct_all [stackSafe, heapSafe] (construct_all [stackSafe, heapSafe] []) =
       Inl LIFOViolation
   \<and> (\<exists>code rt. main True all_ok = Inr (code, rt) \<and> stack_roots rt = [])"
  using registry_LIFO
    [of "[stackSafe, heapSafe]" "[]" stackSafe heapSafe "[stackSafe]" "[stackSafe, heapSafe]"
      True all_ok]
  by simp

section \<open>The life cycle of the global persistent roots\<close>

lemma before_GlobalRootExample:
  "\<exists>rt1 rt2. CustomTypeExample ch rt = Inr (True, rt1) \<and>
     ExistingTypeExample rt1 = Inr (True, rt2) \<and>
     events rt2 = events rt \<and> persistent_roots rt2 = persistent_roots rt \<and>
     phase rt2 = phase rt"
proof -
  obtain rt1 where c1: "CustomTypeExample ch rt = Inr (True, rt1)"
    and e1: "events rt1 = events rt" and p1: "persistent_roots rt1 = persistent_roots rt"
    and r1: "phase rt1 = phase rt"
    using CustomTypeExample_frame [of ch rt] by auto
  obtain rt2 where c2: "ExistingTypeExample rt1 = Inr (True, rt2)"
    and e2: "events rt2 = events rt1" and p2: "persistent_roots rt2 = persistent_roots rt1"
    and r2: "phase rt2 = phase rt1"
    using ExistingTypeExample_frame [of rt1] by auto
  show ?thesis
    using c1 c2 e1 e2 p1 p2 r1 r2 by auto
qed

lemma task_after_startup:
  "\<exists>rt0 ok rt'. JS_Init initial_Runtime = Inr rt0 \<and> TracingExample ch rt0 = Inr (ok, rt') \<and>
     persistent_roots rt' = [] \<and> phase rt' = Running \<and>
     events rt' =
       [Started,
        Registered globalPtrSafe, Registered globalMaybeSafe,
        Deregistered globalMaybeSafe, Deregistered globalPtrSafe,
        Registered memberSafe, Registered memberObjPtr,
        Deregistered memberObjPtr, Deregistered memberSafe]"
proof -
  have "JS_Init initial_Runtime = Inr (initial_Runtime\<lparr>phase := Running, events := [Started]\<rparr>)"
    by (simp add: JS_Init_def initial_Runtime_def)
  then show ?thesis
    using TracingExample_runs [of ch] by auto
qed

text \<open>
  C7. In every execution (whatever allocations fail):
  \<^item> run in a state where the collector is running and the two global roots are not
    registered, \<open>GlobalRootExample\<close> registers \<open>globalPtrSafe\<close> by \<open>init\<close>, then
    \<open>globalMaybeSafe\<close>, and deregisters both by \<open>reset\<close> before it returns; these four
    are the events it adds, and it leaves the set of registered roots as it found it;
  \<^item> what \<open>TracingExample\<close> runs before it, from any state, registers nothing and adds no
    event;
  \<^item> the task, run from the state that collector startup gives the process, returns with
    no persistent root registered, the registration of each global root coming after
    \<open>Started\<close> and its deregistration before the task returns;
  \<^item> \<open>main\<close> ends without a violation, with no persistent root registered; where the
    collector is shut down, \<open>Stopped\<close> comes after the deregistration of every root.
\<close>

theorem global_roots_lifecycle:
  "(phase rt = Running \<and> globalPtrSafe \<notin> set (persistent_roots rt) \<and>
    globalMaybeSafe \<notin> set (persistent_roots rt) \<longrightarrow>
      (\<exists>rt'. GlobalRootExample ch rt = Inr (True, rt') \<and>
             events rt' = events rt @
               [Registered globalPtrSafe, Registered globalMaybeSafe,
                Deregistered globalMaybeSafe, Deregistered globalPtrSafe] \<and>
             persistent_roots rt' = persistent_roots rt \<and> phase rt' = Running))
   \<and> (\<exists>rt1 rt2. CustomTypeExample ch rt = Inr (True, rt1) \<and>
         ExistingTypeExample rt1 = Inr (True, rt2) \<and>
         events rt2 = events rt \<and> persistent_roots rt2 = persistent_roots rt \<and>
         phase rt2 = phase rt)
   \<and> (\<exists>rt0 ok rt'. JS_Init initial_Runtime = Inr rt0 \<and> TracingExample ch rt0 = Inr (ok, rt') \<and>
         persistent_roots rt' = [] \<and> phase rt' = Running \<and>
         events rt' =
           [Started,
            Registered globalPtrSafe, Registered globalMaybeSafe,
            Deregistered globalMaybeSafe, Deregistered globalPtrSafe,
            Registered memberSafe, Registered memberObjPtr,
            Deregistered memberObjPtr, Deregistered memberSafe])
   \<and> (\<exists>code rt_end. main sd ch = Inr (code, rt_end) \<and> persistent_roots rt_end = [] \<and>
         events rt_end =
           [Started,
            Registered globalPtrSafe, Registered globalMaybeSafe,
            Deregistered globalMaybeSafe, Deregistered globalPtrSafe,
            Registered memberSafe, Registered memberObjPtr,
            Deregistered memberObjPtr, Deregistered memberSafe] @
           (if code = 0 \<or> sd then [Stopped] else []))"
proof -
  have a: "phase rt = Running \<and> globalPtrSafe \<notin> set (persistent_roots rt) \<and>
    globalMaybeSafe \<notin> set (persistent_roots rt) \<longrightarrow>
      (\<exists>rt'. GlobalRootExample ch rt = Inr (True, rt') \<and>
             events rt' = events rt @
               [Registered globalPtrSafe, Registered globalMaybeSafe,
                Deregistered globalMaybeSafe, Deregistered globalPtrSafe] \<and>
             persistent_roots rt' = persistent_roots rt \<and> phase rt' = Running)"
  proof
    assume h: "phase rt = Running \<and> globalPtrSafe \<notin> set (persistent_roots rt) \<and>
      globalMaybeSafe \<notin> set (persistent_roots rt)"
    then obtain rt' where "GlobalRootExample ch rt = Inr (True, rt')"
      and "events rt' = events rt @
               [Registered globalPtrSafe, Registered globalMaybeSafe,
                Deregistered globalMaybeSafe, Deregistered globalPtrSafe]"
      and "persistent_roots rt' = persistent_roots rt" and "phase rt' = phase rt"
      using GlobalRootExample_frame [of rt ch] by blast
    with h show "\<exists>rt'. GlobalRootExample ch rt = Inr (True, rt') \<and>
             events rt' = events rt @
               [Registered globalPtrSafe, Registered globalMaybeSafe,
                Deregistered globalMaybeSafe, Deregistered globalPtrSafe] \<and>
             persistent_roots rt' = persistent_roots rt \<and> phase rt' = Running"
      by auto
  qed
  obtain code rt_end where d: "main sd ch = Inr (code, rt_end)"
    "persistent_roots rt_end = []"
    "events rt_end =
           [Started,
            Registered globalPtrSafe, Registered globalMaybeSafe,
            Deregistered globalMaybeSafe, Deregistered globalPtrSafe,
            Registered memberSafe, Registered memberObjPtr,
            Deregistered memberObjPtr, Deregistered memberSafe] @
           (if code = 0 \<or> sd then [Stopped] else [])"
    using main_runs [of sd ch] by blast
  show ?thesis
    using a before_GlobalRootExample [of ch rt] task_after_startup [of ch] d by blast
qed

theorem global_roots_lifecycle_witness:
  "(\<exists>rt'. GlobalRootExample all_ok (initial_Runtime\<lparr>phase := Running, events := [Started]\<rparr>) =
            Inr (True, rt') \<and>
          events rt' =
            [Started, Registered globalPtrSafe, Registered globalMaybeSafe,
             Deregistered globalMaybeSafe, Deregistered globalPtrSafe] \<and>
          persistent_roots rt' = [])
   \<and> (\<exists>code rt_end. main True all_ok = Inr (code, rt_end) \<and> persistent_roots rt_end = [] \<and>
         events rt_end =
           [Started,
            Registered globalPtrSafe, Registered globalMaybeSafe,
            Deregistered globalMaybeSafe, Deregistered globalPtrSafe,
            Registered memberSafe, Registered memberObjPtr,
            Deregistered memberObjPtr, Deregistered memberSafe, Stopped])"
proof -
  let ?rt = "initial_Runtime\<lparr>phase := Running, events := [Started]\<rparr>"
  have h: "phase ?rt = Running \<and> globalPtrSafe \<notin> set (persistent_roots ?rt) \<and>
           globalMaybeSafe \<notin> set (persistent_roots ?rt)"
    and e: "events ?rt = [Started]" and p: "persistent_roots ?rt = []"
    by (simp_all add: initial_Runtime_def)
  note t = global_roots_lifecycle [of ?rt all_ok True]
  from t h have "\<exists>rt'. GlobalRootExample all_ok ?rt = Inr (True, rt') \<and>
             events rt' = events ?rt @
               [Registered globalPtrSafe, Registered globalMaybeSafe,
                Deregistered globalMaybeSafe, Deregistered globalPtrSafe] \<and>
             persistent_roots rt' = persistent_roots ?rt \<and> phase rt' = Running"
    by blast
  then have a: "\<exists>rt'. GlobalRootExample all_ok ?rt = Inr (True, rt') \<and>
          events rt' =
            [Started, Registered globalPtrSafe, Registered globalMaybeSafe,
             Deregistered globalMaybeSafe, Deregistered globalPtrSafe] \<and>
          persistent_roots rt' = []"
    unfolding e p by auto
  from t have "\<exists>code rt_end. main True all_ok = Inr (code, rt_end) \<and>
         persistent_roots rt_end = [] \<and>
         events rt_end =
           [Started,
            Registered globalPtrSafe, Registered globalMaybeSafe,
            Deregistered globalMaybeSafe, Deregistered globalPtrSafe,
            Registered memberSafe, Registered memberObjPtr,
            Deregistered memberObjPtr, Deregistered memberSafe] @
           (if code = 0 \<or> True then [Stopped] else [])"
    by blast
  then have b: "\<exists>code rt_end. main True all_ok = Inr (code, rt_end) \<and>
         persistent_roots rt_end = [] \<and>
         events rt_end =
           [Started,
            Registered globalPtrSafe, Registered globalMaybeSafe,
            Deregistered globalMaybeSafe, Deregistered globalPtrSafe,
            Registered memberSafe, Registered memberObjPtr,
            Deregistered memberObjPtr, Deregistered memberSafe, Stopped]"
    by simp
  from a b show ?thesis by blast
qed

section \<open>Finalization\<close>

lemma finalize_dead_log:
  "finalize_dead st cs log = Inr (st', log') \<Longrightarrow>
     log' = log @ map fst (filter (\<lambda>c. clasp_name (snd c) = cls_name clasp) cs)"
proof (induction cs arbitrary: st log)
  case Nil
  then show ?case by simp
next
  case (Cons c cs)
  show ?case
  proof (cases "clasp_name (snd c) = cls_name clasp")
    case False
    with Cons show ?thesis by simp
  next
    case True
    with Cons.prems obtain st1 where r: "finalize_dead st1 cs (log @ [fst c]) = Inr (st', log')"
      by (auto split: sum.splits)
    show ?thesis using Cons.IH [OF r] True by simp
  qed
qed

lemma finalize_Inr:
  "CustomObject_finalize st obj = Inr st' \<Longrightarrow>
     (ownedBox obj = None \<and> st' = st) \<or> (\<exists>a box. ownedBox obj = Some a \<and> st a = Some box \<and> st' = st(a := None))"
  by (auto simp: CustomObject_finalize_def delete_SafeBox_def split: option.splits)

lemma finalize_dead_None:
  "finalize_dead st cs log = Inr (st', log') \<Longrightarrow> st p = None \<Longrightarrow> st' p = None"
proof (induction cs arbitrary: st log)
  case Nil
  then show ?case by simp
next
  case (Cons c cs)
  show ?case
  proof (cases "clasp_name (snd c) = cls_name clasp")
    case False
    with Cons show ?thesis by simp
  next
    case True
    with Cons.prems obtain st1 where f: "CustomObject_finalize st (snd c) = Inr st1"
      and r: "finalize_dead st1 cs (log @ [fst c]) = Inr (st', log')"
      by (auto split: sum.splits)
    have "st1 p = None" using finalize_Inr [OF f] Cons.prems(2) by auto
    with Cons.IH [OF r] show ?thesis .
  qed
qed

lemma finalize_dead_deleted:
  "finalize_dead st cs log = Inr (st', log') \<Longrightarrow> c \<in> set cs \<Longrightarrow>
     clasp_name (snd c) = cls_name clasp \<Longrightarrow> ownedBox (snd c) = Some a \<Longrightarrow> st' a = None"
proof (induction cs arbitrary: st log)
  case Nil
  then show ?case by simp
next
  case (Cons d cs)
  show ?case
  proof (cases "clasp_name (snd d) = cls_name clasp")
    case False
    with Cons show ?thesis by auto
  next
    case True
    with Cons.prems(1) obtain st1 where f: "CustomObject_finalize st (snd d) = Inr st1"
      and r: "finalize_dead st1 cs (log @ [fst d]) = Inr (st', log')"
      by (auto split: sum.splits)
    show ?thesis
    proof (cases "c = d")
      case True
      then have "st1 a = None" using finalize_Inr [OF f] Cons.prems(4) by auto
      then show ?thesis using finalize_dead_None [OF r] by simp
    next
      case False
      then have "c \<in> set cs" using Cons.prems(2) by simp
      then show ?thesis using Cons.IH [OF r _ Cons.prems(3) Cons.prems(4)] by simp
    qed
  qed
qed

lemma finalize_dead_untouched:
  "finalize_dead st cs log = Inr (st', log') \<Longrightarrow>
     \<forall>c \<in> set cs. clasp_name (snd c) = cls_name clasp \<longrightarrow> ownedBox (snd c) \<noteq> Some b \<Longrightarrow>
     st' b = st b"
proof (induction cs arbitrary: st log)
  case Nil
  then show ?case by simp
next
  case (Cons d cs)
  show ?case
  proof (cases "clasp_name (snd d) = cls_name clasp")
    case False
    with Cons show ?thesis by auto
  next
    case True
    with Cons.prems(1) obtain st1 where f: "CustomObject_finalize st (snd d) = Inr st1"
      and r: "finalize_dead st1 cs (log @ [fst d]) = Inr (st', log')"
      by (auto split: sum.splits)
    have "ownedBox (snd d) \<noteq> Some b" using Cons.prems(2) True by simp
    then have "st1 b = st b" using finalize_Inr [OF f] by auto
    moreover have "st' b = st1 b" using Cons.IH [OF r] Cons.prems(2) by simp
    ultimately show ?thesis by simp
  qed
qed

lemma count_list_distinct:
  "distinct xs \<Longrightarrow> x \<in> set xs \<Longrightarrow> count_list xs x = 1"
  by (induction xs) (auto simp: count_list_0_iff)

lemma JS_GC_Inr:
  assumes "JS_GC rt = Inr rt'"
  shows "\<exists>trc st' log'.
           traceAll rt (all_roots rt) \<lparr>visits = []\<rparr> = Inr trc \<and>
           check_hooks rt (live_cells rt) = Inr () \<and>
           finalize_dead (native rt) (dead_cells rt) (finalized rt) = Inr (st', log') \<and>
           rt' = rt\<lparr>native := st', heap := live_cells rt, finalized := log'\<rparr>"
  using assms
  by (auto simp: JS_GC_def and_then_def lift_fault_def split: sum.splits)

lemma JS_GC_heap:
  "JS_GC rt = Inr rt' \<Longrightarrow> heap rt' = live_cells rt"
  using JS_GC_Inr by fastforce

lemma JS_GC_finalized:
  assumes "JS_GC rt = Inr rt'"
  shows "finalized rt' = finalized rt @
           map fst (filter (\<lambda>c. clasp_name (snd c) = cls_name clasp) (dead_cells rt))"
proof -
  obtain st' log' where f: "finalize_dead (native rt) (dead_cells rt) (finalized rt) = Inr (st', log')"
    and r: "finalized rt' = log'"
    using JS_GC_Inr [OF assms] by auto
  show ?thesis using finalize_dead_log [OF f] r by simp
qed

lemma gc_passes_not_refinalized:
  "gc_passes n rt = Inr rt' \<Longrightarrow> x \<notin> fst ` set (heap rt) \<Longrightarrow>
     count_list (finalized rt') x = count_list (finalized rt) x"
proof (induction n arbitrary: rt)
  case 0
  then show ?case by simp
next
  case (Suc n)
  then obtain rt1 where g: "JS_GC rt = Inr rt1" and p: "gc_passes n rt1 = Inr rt'"
    by (auto simp: and_then_def split: sum.splits)
  have h: "x \<notin> fst ` set (heap rt1)"
    using JS_GC_heap [OF g] Suc.prems(2) by (auto simp: live_cells_def)
  have "x \<notin> set (map fst (filter (\<lambda>c. clasp_name (snd c) = cls_name clasp) (dead_cells rt)))"
    using Suc.prems(2) by (auto simp: dead_cells_def)
  then have "count_list (finalized rt1) x = count_list (finalized rt) x"
    using JS_GC_finalized [OF g] by (simp add: count_list_0_iff)
  with Suc.IH [OF p h] show ?case by simp
qed

lemma JS_GC_native:
  assumes "JS_GC rt = Inr rt'"
  shows "\<exists>log'. finalize_dead (native rt) (dead_cells rt) (finalized rt) = Inr (native rt', log')"
  using JS_GC_Inr [OF assms] by auto

text \<open>
  C3, as it is stated, fails where the two slots hold the same box, which
  \<open>CustomObject::create\<close> accepts: the hook deletes the box of the owned slot, and that
  is the box of the unowned slot. In \<open>aliased_at_JS_GC\<close> the object \<open>aliased_object\<close> is
  unreachable and box 0 is allocated; the pass completes, has run the hook once, and box 0
  is released.
\<close>

theorem finalize_aliased_counterexample:
  "CustomObject_create True (Some 0) (Some 0) = Some aliased_object
   \<and> ownedBox aliased_object = Some 0 \<and> unownedBox aliased_object = Some 0
   \<and> heap aliased_at_JS_GC = [(0, \<lparr>clasp_name = ''global'', slots = []\<rparr>), (1, aliased_object)]
   \<and> 1 \<notin> marked aliased_at_JS_GC
   \<and> native aliased_at_JS_GC 0 = Some \<lparr>stashed = UndefinedValue, container = []\<rparr>
   \<and> CustomObject_finalize (native aliased_at_JS_GC) aliased_object =
       Inr ((native aliased_at_JS_GC)(0 := None))
   \<and> JS_GC aliased_at_JS_GC = Inr aliased_after_GC
   \<and> finalized aliased_after_GC = [1]
   \<and> native aliased_after_GC 0 = None"
proof -
  have m: "marked aliased_at_JS_GC = {0}"
    by (simp add: aliased_at_JS_GC_def aliased_object_def gc_defs)
  have g: "JS_GC aliased_at_JS_GC = Inr aliased_after_GC"
    by (simp add: JS_GC_def live_cells_def dead_cells_def m and_then_def lift_fault_def)
      (simp add: aliased_at_JS_GC_def aliased_after_GC_def aliased_object_def gc_defs
        and_then_def lift_fault_def delete_SafeBox_def)
  have c: "CustomObject_create True (Some 0) (Some 0) = Some aliased_object"
    by (simp add: CustomObject_create_def JS_NewObject_def JS_SetReservedSlot_def clasp_def
        SlotCount_def OwnedBoxSlot_def UnownedBoxSlot_def aliased_object_def numeral_2_eq_2)
  have f: "CustomObject_finalize (native aliased_at_JS_GC) aliased_object =
             Inr ((native aliased_at_JS_GC)(0 := None))"
    by (simp add: CustomObject_finalize_def delete_SafeBox_def ownedBox_def
        GetMaybePtrFromReservedSlot_def OwnedBoxSlot_def aliased_at_JS_GC_def
        aliased_object_def)
  have n: "native aliased_at_JS_GC 0 = Some \<lparr>stashed = UndefinedValue, container = []\<rparr>"
    and h: "heap aliased_at_JS_GC =
              [(0, \<lparr>clasp_name = ''global'', slots = []\<rparr>), (1, aliased_object)]"
    by (simp_all add: aliased_at_JS_GC_def)
  have a: "finalized aliased_after_GC = [1]" "native aliased_after_GC 0 = None"
    by (simp_all add: aliased_after_GC_def)
  show ?thesis
    using m g c f n h a created_boxes [OF c] by simp
qed

text \<open>
  C3, amended. Let a pass find the CustomObject \<open>x\<close> unreachable, with an owned box at
  \<open>a\<close> and an unowned box at \<open>b\<close>, and let the pass complete. Then the finalize hook has
  run on \<open>x\<close> exactly once in it, the owned box is released, \<open>x\<close> is reclaimed, no later
  pass runs the hook on \<open>x\<close> again, and a pass that marks \<open>x\<close> does not run the hook on
  it. The hook of \<open>x\<close> leaves the unowned box as it was when it is not the owned box
  (\<open>b \<noteq> a\<close>), in whatever native memory it runs; and the unowned box is as it was after
  the pass when no object that dies in the pass owns it.
\<close>

theorem finalize_runs_once:
  assumes "distinct (map fst (heap rt))"
    and "(x, obj) \<in> set (heap rt)" and "clasp_name obj = cls_name clasp"
    and "ownedBox obj = Some a" and "unownedBox obj = Some b"
    and "x \<notin> marked rt"
    and "JS_GC rt = Inr rt'"
  shows "count_list (finalized rt') x = count_list (finalized rt) x + 1
     \<and> native rt' a = None
     \<and> x \<notin> fst ` set (heap rt')
     \<and> (\<forall>n rt''. gc_passes n rt' = Inr rt'' \<longrightarrow>
           count_list (finalized rt'') x = count_list (finalized rt') x)
     \<and> (\<forall>rt0 rt1. JS_GC rt0 = Inr rt1 \<and> x \<in> marked rt0 \<longrightarrow>
           count_list (finalized rt1) x = count_list (finalized rt0) x)
     \<and> (b \<noteq> a \<longrightarrow>
           (\<forall>st st'. CustomObject_finalize st obj = Inr st' \<longrightarrow> st' b = st b \<and> st' a = None))
     \<and> ((\<forall>c \<in> set (dead_cells rt). clasp_name (snd c) = cls_name clasp \<longrightarrow>
            ownedBox (snd c) \<noteq> Some b) \<longrightarrow>
           native rt' b = native rt b)"
proof -
  let ?customs = "filter (\<lambda>c. clasp_name (snd c) = cls_name clasp) (dead_cells rt)"
  have dead: "(x, obj) \<in> set (dead_cells rt)"
    using assms(2,6) by (simp add: dead_cells_def)
  obtain log' where f: "finalize_dead (native rt) (dead_cells rt) (finalized rt) = Inr (native rt', log')"
    using JS_GC_native [OF assms(7)] by blast
  have "distinct (map fst ?customs)"
    using assms(1) by (simp add: dead_cells_def distinct_map_filter)
  moreover have "x \<in> set (map fst ?customs)"
    using dead assms(3) by force
  ultimately have "count_list (map fst ?customs) x = 1"
    by (rule count_list_distinct)
  then have c1: "count_list (finalized rt') x = count_list (finalized rt) x + 1"
    using JS_GC_finalized [OF assms(7)] by simp
  have c2: "native rt' a = None"
    using finalize_dead_deleted [OF f dead] assms(3,4) by simp
  have c4: "x \<notin> fst ` set (heap rt')"
  proof
    assume "x \<in> fst ` set (heap rt')"
    then obtain o' where "(x, o') \<in> set (live_cells rt)"
      using JS_GC_heap [OF assms(7)] by auto
    then show False using assms(6) by (simp add: live_cells_def)
  qed
  have c5: "\<forall>n rt''. gc_passes n rt' = Inr rt'' \<longrightarrow>
           count_list (finalized rt'') x = count_list (finalized rt') x"
    using gc_passes_not_refinalized c4 by blast
  have c6: "\<forall>rt0 rt1. JS_GC rt0 = Inr rt1 \<and> x \<in> marked rt0 \<longrightarrow>
           count_list (finalized rt1) x = count_list (finalized rt0) x"
  proof (intro allI impI)
    fix rt0 rt1
    assume h: "JS_GC rt0 = Inr rt1 \<and> x \<in> marked rt0"
    then have "x \<notin> set (map fst (filter (\<lambda>c. clasp_name (snd c) = cls_name clasp)
                                      (dead_cells rt0)))"
      by (auto simp: dead_cells_def)
    then show "count_list (finalized rt1) x = count_list (finalized rt0) x"
      using JS_GC_finalized [of rt0 rt1] h by (simp add: count_list_0_iff)
  qed
  have c7: "b \<noteq> a \<longrightarrow>
           (\<forall>st st'. CustomObject_finalize st obj = Inr st' \<longrightarrow> st' b = st b \<and> st' a = None)"
  proof (intro impI allI)
    fix st st'
    assume ne: "b \<noteq> a" and fin: "CustomObject_finalize st obj = Inr st'"
    show "st' b = st b \<and> st' a = None"
      using finalize_Inr [OF fin] assms(4) ne by auto
  qed
  have c3: "(\<forall>c \<in> set (dead_cells rt). clasp_name (snd c) = cls_name clasp \<longrightarrow>
            ownedBox (snd c) \<noteq> Some b) \<longrightarrow>
           native rt' b = native rt b"
    using finalize_dead_untouched [OF f] by blast
  show ?thesis using c1 c2 c3 c4 c5 c6 c7 by blast
qed

lemma marked_at_JS_GC: "marked at_JS_GC = {0}"
  by (simp add: at_JS_GC_def gc_defs)

lemma JS_GC_at_JS_GC:
  "JS_GC at_JS_GC =
     Inr (at_JS_GC\<lparr>native := [1 \<mapsto> \<lparr>stashed = UndefinedValue, container = []\<rparr>],
                   heap := [(0, \<lparr>clasp_name = ''global'', slots = []\<rparr>)],
                   finalized := [1]\<rparr>)"
  by (simp add: JS_GC_def live_cells_def dead_cells_def marked_at_JS_GC and_then_def
      lift_fault_def)
    (simp add: at_JS_GC_def gc_defs and_then_def lift_fault_def delete_SafeBox_def
      fun_upd_twist)

lemma CustomObjectExample_reaches_JS_GC:
  "CustomObjectExample all_ok (initial_Runtime\<lparr>phase := Running\<rparr>) =
     and_then (JS_GC at_JS_GC) (\<lambda>rt6.
     and_then (Rooted_destruct global_var rt6) (\<lambda>rt'. Inr (True, rt')))"
proof -
  have "(rooted_value at_JS_GC)(obj_var := RootedObject None) = rooted_value at_JS_GC"
    by (rule ext) (simp add: at_JS_GC_def)
  then have "at_JS_GC\<lparr>rooted_value := (rooted_value at_JS_GC)(obj_var := RootedObject None)\<rparr>
               = at_JS_GC"
    by simp
  moreover have "CustomObjectExample all_ok (initial_Runtime\<lparr>phase := Running\<rparr>) =
     and_then (JS_GC (at_JS_GC\<lparr>rooted_value :=
                        (rooted_value at_JS_GC)(obj_var := RootedObject None)\<rparr>)) (\<lambda>rt6.
     and_then (Rooted_destruct global_var rt6) (\<lambda>rt'. Inr (True, rt')))"
    by (simp add: CustomObjectExample_def CustomObject_create_in_def all_ok_def CreateGlobal_def
        new_cell_def get_eternalBox_def new_SafeBox_def Rooted_construct_def Rooted_destruct_def and_then_def lift_fault_def
        push_def pop_def delete_SafeBox_def initial_Runtime_def at_JS_GC_def
        CustomObject_create_def JS_NewObject_def JS_SetReservedSlot_def clasp_def SlotCount_def
        OwnedBoxSlot_def UnownedBoxSlot_def numeral_2_eq_2 Let_def fun_upd_twist)
  ultimately show ?thesis by simp
qed

theorem finalize_runs_once_witness:
  "\<exists>rt' rt''.
     CustomObjectExample all_ok (initial_Runtime\<lparr>phase := Running\<rparr>) =
       and_then (JS_GC at_JS_GC) (\<lambda>rt6.
       and_then (Rooted_destruct global_var rt6) (\<lambda>rt'. Inr (True, rt'))) \<and>
     JS_GC at_JS_GC = Inr rt' \<and>
     count_list (finalized at_JS_GC) 1 = 0 \<and> count_list (finalized rt') 1 = 1 \<and>
     native rt' 0 = None \<and>
     native rt' 1 = native at_JS_GC 1 \<and>
     native rt' 1 = Some \<lparr>stashed = UndefinedValue, container = []\<rparr> \<and>
     1 \<notin> fst ` set (heap rt') \<and>
     gc_passes 2 rt' = Inr rt'' \<and> count_list (finalized rt'') 1 = 1"
proof -
  define obj where "obj = \<lparr>clasp_name = ''Custom'',
                             slots = [PrivateValue (Some 0), PrivateValue (Some 1)]\<rparr>"
  define rt' where "rt' = at_JS_GC\<lparr>native := [1 \<mapsto> \<lparr>stashed = UndefinedValue, container = []\<rparr>],
                   heap := [(0, \<lparr>clasp_name = ''global'', slots = []\<rparr>)],
                   finalized := [1]\<rparr>"
  have g: "JS_GC at_JS_GC = Inr rt'"
    by (simp add: JS_GC_at_JS_GC rt'_def)
  have h1: "distinct (map fst (heap at_JS_GC))"
    and h2: "(1, obj) \<in> set (heap at_JS_GC)"
    and h3: "clasp_name obj = cls_name clasp"
    and h4: "ownedBox obj = Some 0" and h5: "unownedBox obj = Some 1"
    by (simp_all add: at_JS_GC_def obj_def clasp_def ownedBox_def unownedBox_def
        GetMaybePtrFromReservedSlot_def OwnedBoxSlot_def UnownedBoxSlot_def)
  have h6: "1 \<notin> marked at_JS_GC"
    by (simp add: marked_at_JS_GC)
  have h7: "\<forall>c \<in> set (dead_cells at_JS_GC). clasp_name (snd c) = cls_name clasp \<longrightarrow>
             ownedBox (snd c) \<noteq> Some 1"
    by (simp add: dead_cells_def marked_at_JS_GC)
      (auto simp: at_JS_GC_def ownedBox_def GetMaybePtrFromReservedSlot_def OwnedBoxSlot_def)
  have m: "marked rt' = {0}"
    by (simp add: rt'_def at_JS_GC_def gc_defs)
  have g2: "JS_GC rt' = Inr rt'"
    by (simp add: JS_GC_def live_cells_def dead_cells_def m and_then_def lift_fault_def)
      (simp add: rt'_def at_JS_GC_def gc_defs and_then_def lift_fault_def)
  have p: "gc_passes 2 rt' = Inr rt'"
    by (simp add: numeral_2_eq_2 g2 and_then_def)
  have "native rt' 1 = Some \<lparr>stashed = UndefinedValue, container = []\<rparr>"
    and "count_list (finalized at_JS_GC) 1 = 0"
    by (simp_all add: rt'_def at_JS_GC_def)
  then show ?thesis
    using finalize_runs_once [OF h1 h2 h3 h4 h5 h6 g] h7 g p
      CustomObjectExample_reaches_JS_GC
    by auto
qed

section \<open>Marking\<close>

lemma fold_visitEdge:
  "fold (visitEdge rt) vs m = m \<union> {g. \<exists>v \<in> set vs. referent rt (fst v) = Some g}"
proof (induction vs arbitrary: m)
  case Nil
  show ?case by simp
next
  case (Cons v vs)
  have step: "visitEdge rt v m = m \<union> {g. referent rt (fst v) = Some g}"
    by (auto simp: visitEdge_def split: option.splits)
  have "fold (visitEdge rt) (v # vs) m =
          visitEdge rt v m \<union> {g. \<exists>w \<in> set vs. referent rt (fst w) = Some g}"
    by (simp add: Cons.IH)
  then show ?case
    unfolding step by auto
qed

lemma JSTracer_eq: "visits (t :: JSTracer) = vs \<Longrightarrow> t = \<lparr>visits = vs\<rparr>"
  by (cases t) simp

lemma SafeBox_trace_eq: "SafeBox_trace a box trc = \<lparr>visits = visits trc @ SafeBox_edges a box\<rparr>"
  by (rule JSTracer_eq) (rule visits_SafeBox_trace)

lemma trace_root_uniform:
  "trace_root rt r trc =
     (case trace_root rt r \<lparr>visits = []\<rparr> of
        Inl f \<Rightarrow> Inl f
      | Inr t \<Rightarrow> Inr \<lparr>visits = visits trc @ visits t\<rparr>)"
  by (auto simp: trace_root_def call_trace_def SafeBox_trace_eq TraceEdge_def
      split: rooted.splits option.splits)

lemma traceAll_visits:
  "traceAll rt rs trc = Inr trc' \<Longrightarrow> r \<in> set rs \<Longrightarrow>
     \<exists>t. trace_root rt r \<lparr>visits = []\<rparr> = Inr t \<and> set (visits t) \<subseteq> set (visits trc')"
proof (induction rs arbitrary: trc)
  case Nil
  then show ?case by simp
next
  case (Cons q rs)
  from Cons.prems(1) obtain t1 where q: "trace_root rt q trc = Inr t1"
    and rest: "traceAll rt rs t1 = Inr trc'"
    by (auto split: sum.splits)
  have mono: "set (visits t1) \<subseteq> set (visits trc')"
    using rest
  proof (induction rs arbitrary: t1)
    case Nil
    then show ?case by simp
  next
    case (Cons p ps)
    from Cons.prems obtain t2 where p: "trace_root rt p t1 = Inr t2"
      and r2: "traceAll rt ps t2 = Inr trc'"
      by (auto split: sum.splits)
    have "set (visits t1) \<subseteq> set (visits t2)"
      using p by (subst (asm) trace_root_uniform) (auto split: sum.splits)
    with Cons.IH [OF r2] show ?case by blast
  qed
  show ?case
  proof (cases "r = q")
    case True
    obtain t where t: "trace_root rt q \<lparr>visits = []\<rparr> = Inr t" and "t1 = \<lparr>visits = visits trc @ visits t\<rparr>"
      using q by (subst (asm) trace_root_uniform) (auto split: sum.splits)
    then have "set (visits t) \<subseteq> set (visits t1)" by simp
    with mono t True show ?thesis by blast
  next
    case False
    then have "r \<in> set rs" using Cons.prems(2) by simp
    from Cons.IH [OF rest this] show ?thesis .
  qed
qed

lemma root_referents_marked:
  assumes "JS_GC rt = Inr rt'" and "r \<in> set (all_roots rt)" and "g \<in> root_referents rt r"
  shows "g \<in> marked rt"
proof -
  obtain trc where t: "traceAll rt (all_roots rt) \<lparr>visits = []\<rparr> = Inr trc"
    using assms(1) by (auto simp: JS_GC_def and_then_def lift_fault_def split: sum.splits)
  obtain t0 where t0: "trace_root rt r \<lparr>visits = []\<rparr> = Inr t0"
    and sub: "set (visits t0) \<subseteq> set (visits trc)"
    using traceAll_visits [OF t assms(2)] by blast
  have "g \<in> fold (visitEdge rt) (visits t0) {}"
    using assms(3) t0 by (simp add: root_referents_def)
  then have "g \<in> fold (visitEdge rt) (visits trc) {}"
    using sub by (auto simp: fold_visitEdge)
  then show ?thesis
    using t by (simp add: marked_def root_set_def)
qed

text \<open>
  C9. Visiting an edge a second time leaves the marking state as the first visit left it,
  wherever in the pass the second visit comes, and the order of two visits does not
  matter. So a CustomObject whose two slots point at the same box, which the trace hook
  then traces twice, marks exactly what tracing the box once marks.
\<close>

theorem visitEdge_idempotent:
  "visitEdge rt v (visitEdge rt v m) = visitEdge rt v m
   \<and> fold (visitEdge rt) (vs @ [v] @ ws @ [v] @ us) m = fold (visitEdge rt) (vs @ [v] @ ws @ us) m
   \<and> visitEdge rt v (visitEdge rt w m) = visitEdge rt w (visitEdge rt v m)
   \<and> (ownedBox obj = Some a \<and> unownedBox obj = Some a \<and> native rt a = Some box \<longrightarrow>
        (\<exists>trc. CustomObject_trace (native rt) \<lparr>visits = []\<rparr> obj = Inr trc
           \<and> visits trc = SafeBox_edges a box @ SafeBox_edges a box
           \<and> fold (visitEdge rt) (visits trc) m = fold (visitEdge rt) (SafeBox_edges a box) m))"
proof -
  have a: "visitEdge rt v (visitEdge rt v m) = visitEdge rt v m"
    by (auto simp: visitEdge_def split: option.splits)
  have b: "fold (visitEdge rt) (vs @ [v] @ ws @ [v] @ us) m = fold (visitEdge rt) (vs @ [v] @ ws @ us) m"
    unfolding fold_visitEdge by auto
  have c: "visitEdge rt v (visitEdge rt w m) = visitEdge rt w (visitEdge rt v m)"
    by (auto simp: visitEdge_def split: option.splits)
  have d: "\<exists>trc. CustomObject_trace (native rt) \<lparr>visits = []\<rparr> obj = Inr trc
           \<and> visits trc = SafeBox_edges a box @ SafeBox_edges a box
           \<and> fold (visitEdge rt) (visits trc) m = fold (visitEdge rt) (SafeBox_edges a box) m"
    if "ownedBox obj = Some a" "unownedBox obj = Some a" "native rt a = Some box"
  proof -
    have "CustomObject_trace (native rt) \<lparr>visits = []\<rparr> obj =
            Inr \<lparr>visits = SafeBox_edges a box @ SafeBox_edges a box\<rparr>"
      using that by (simp add: CustomObject_trace_def call_trace_def SafeBox_trace_eq)
    moreover have "fold (visitEdge rt) (SafeBox_edges a box @ SafeBox_edges a box) m =
                     fold (visitEdge rt) (SafeBox_edges a box) m"
      unfolding fold_visitEdge by auto
    ultimately show ?thesis by simp
  qed
  show ?thesis using a b c d by blast
qed

theorem visitEdge_idempotent_witness:
  "\<exists>obj trc.
     CustomObject_create True (Some 1) (Some 1) = Some obj \<and>
     CustomObject_trace example_store \<lparr>visits = []\<rparr> obj = Inr trc \<and>
     length (visits trc) = 6 \<and>
     fold (visitEdge (initial_Runtime\<lparr>native := example_store\<rparr>)) (visits trc) {} = {7, 8} \<and>
     fold (visitEdge (initial_Runtime\<lparr>native := example_store\<rparr>))
       (SafeBox_edges 1 \<lparr>stashed = GCThingValue 7, container = [GCThingValue 8, UndefinedValue]\<rparr>)
       {} = {7, 8}"
proof -
  let ?rt = "initial_Runtime\<lparr>native := example_store\<rparr>"
  let ?box = "\<lparr>stashed = GCThingValue 7, container = [GCThingValue 8, UndefinedValue]\<rparr>"
  obtain obj where c: "CustomObject_create True (Some 1) (Some 1) = Some obj"
    using create_succeeds by blast
  have b: "ownedBox obj = Some 1" "unownedBox obj = Some 1"
    using created_boxes [OF c] by simp_all
  have n: "native ?rt 1 = Some ?box"
    by (simp add: example_store_def)
  have m: "fold (visitEdge ?rt) (SafeBox_edges 1 ?box) {} = {7, 8}"
    by (auto simp: SafeBox_edges_def visitEdge_def referent_def example_store_def
        upt_conv_Cons numeral_2_eq_2)
  have "\<exists>trc. CustomObject_trace (native ?rt) \<lparr>visits = []\<rparr> obj = Inr trc
           \<and> visits trc = SafeBox_edges 1 ?box @ SafeBox_edges 1 ?box
           \<and> fold (visitEdge ?rt) (visits trc) {} = fold (visitEdge ?rt) (SafeBox_edges 1 ?box) {}"
    using visitEdge_idempotent [of ?rt _ "{}" _ _ _ _ obj 1 ?box] b n by blast
  then show ?thesis
    using c m by (auto simp: SafeBox_edges_def)
qed

section \<open>Persistent roots across collection passes\<close>

lemma finalize_dead_same_or_None:
  "finalize_dead st cs log = Inr (st', log') \<Longrightarrow> st' p = None \<or> st' p = st p"
proof (induction cs arbitrary: st log)
  case Nil
  then show ?case by simp
next
  case (Cons c cs)
  show ?case
  proof (cases "clasp_name (snd c) = cls_name clasp")
    case False
    with Cons show ?thesis by simp
  next
    case True
    with Cons.prems obtain st1 where f: "CustomObject_finalize st (snd c) = Inr st1"
      and r: "finalize_dead st1 cs (log @ [fst c]) = Inr (st', log')"
      by (auto split: sum.splits)
    have "st1 p = None \<or> st1 p = st p" using finalize_Inr [OF f] by auto
    moreover have "st' p = None \<or> st' p = st1 p" using Cons.IH [OF r] .
    moreover have "st1 p = None \<Longrightarrow> st' p = None" using finalize_dead_None [OF r] .
    ultimately show ?thesis by auto
  qed
qed

lemma referent_cong:
  assumes "rooted_value rt1 = rooted_value rt" and "native rt1 a = native rt a"
  shows "referent rt1 (StashedSlot a) = referent rt (StashedSlot a)"
    and "referent rt1 (ElemSlot a i) = referent rt (ElemSlot a i)"
    and "referent rt1 (RootSlot r) = referent rt (RootSlot r)"
  using assms by (simp_all add: referent_def)

lemma root_referents_after:
  assumes rv: "rooted_value rt1 = rooted_value rt"
    and nat: "\<And>a. native rt1 a = None \<or> native rt1 a = native rt a"
    and ok: "trace_root rt1 r \<lparr>visits = []\<rparr> = Inr t1"
  shows "root_referents rt1 r = root_referents rt r"
proof (cases "rooted_value rt r")
  case (RootedObject g)
  then show ?thesis
    using rv by (simp add: root_referents_def trace_root_def visitEdge_def referent_def TraceEdge_def)
next
  case (RootedBox p)
  show ?thesis
  proof (cases p)
    case None
    with RootedBox show ?thesis
      using rv by (simp add: root_referents_def trace_root_def)
  next
    case (Some a)
    from ok RootedBox Some rv obtain box where b1: "native rt1 a = Some box"
      by (auto simp: trace_root_def call_trace_def split: option.splits)
    with nat [of a] have b: "native rt a = Some box" by auto
    have same: "referent rt1 (fst v) = referent rt (fst v)" if "v \<in> set (SafeBox_edges a box)" for v
      using that b b1 rv by (auto simp: SafeBox_edges_def referent_def)
    have "fold (visitEdge rt1) (SafeBox_edges a box) {} = fold (visitEdge rt) (SafeBox_edges a box) {}"
      using same by (auto simp: fold_visitEdge)
    then show ?thesis
      using RootedBox Some rv b b1
      by (simp add: root_referents_def trace_root_def call_trace_def SafeBox_trace_eq)
  qed
qed

lemma JS_GC_frame:
  assumes "JS_GC rt = Inr rt'"
  shows "rooted_value rt' = rooted_value rt" and "persistent_roots rt' = persistent_roots rt"
    and "stack_roots rt' = stack_roots rt" and "heap rt' = live_cells rt"
    and "native rt' a = None \<or> native rt' a = native rt a"
proof -
  obtain st' log' where f: "finalize_dead (native rt) (dead_cells rt) (finalized rt) = Inr (st', log')"
    and r: "rt' = rt\<lparr>native := st', heap := live_cells rt, finalized := log'\<rparr>"
    using assms by (auto simp: JS_GC_def and_then_def lift_fault_def split: sum.splits)
  show "rooted_value rt' = rooted_value rt" "persistent_roots rt' = persistent_roots rt"
    "stack_roots rt' = stack_roots rt" "heap rt' = live_cells rt"
    using r by simp_all
  show "native rt' a = None \<or> native rt' a = native rt a"
    using finalize_dead_same_or_None [OF f, of a] r by simp
qed

lemma JS_GC_traces_root:
  assumes "JS_GC rt = Inr rt'" and "r \<in> set (all_roots rt)"
  shows "\<exists>t. trace_root rt r \<lparr>visits = []\<rparr> = Inr t"
proof -
  obtain trc where t: "traceAll rt (all_roots rt) \<lparr>visits = []\<rparr> = Inr trc"
    using assms(1) by (auto simp: JS_GC_def and_then_def lift_fault_def split: sum.splits)
  show ?thesis using traceAll_visits [OF t assms(2)] by blast
qed

lemma kept_alive:
  "gc_passes n rt = Inr rt' \<Longrightarrow> r \<in> set (persistent_roots rt) \<Longrightarrow>
   g \<in> fst ` set (heap rt) \<Longrightarrow>
   (\<And>t. trace_root rt r \<lparr>visits = []\<rparr> = Inr t \<Longrightarrow> g \<in> root_referents rt r) \<Longrightarrow>
   g \<in> fst ` set (heap rt') \<and> r \<in> set (persistent_roots rt')"
proof (induction n arbitrary: rt)
  case 0
  then show ?case by simp
next
  case (Suc n)
  from Suc.prems(1) obtain rt1 where g1: "JS_GC rt = Inr rt1" and p: "gc_passes n rt1 = Inr rt'"
    by (auto simp: and_then_def split: sum.splits)
  have r_all: "r \<in> set (all_roots rt)"
    using Suc.prems(2) by (simp add: all_roots_def)
  obtain t where "trace_root rt r \<lparr>visits = []\<rparr> = Inr t"
    using JS_GC_traces_root [OF g1 r_all] by blast
  then have ref: "g \<in> root_referents rt r"
    using Suc.prems(4) by blast
  then have "g \<in> marked rt"
    using root_referents_marked [OF g1 r_all] by blast
  then have h1: "g \<in> fst ` set (heap rt1)"
    using Suc.prems(3) JS_GC_frame(4) [OF g1] by (auto simp: live_cells_def)
  have r1: "r \<in> set (persistent_roots rt1)"
    using Suc.prems(2) JS_GC_frame(2) [OF g1] by simp
  have inv: "g \<in> root_referents rt1 r" if "trace_root rt1 r \<lparr>visits = []\<rparr> = Inr t1" for t1
    using root_referents_after [OF JS_GC_frame(1) [OF g1] JS_GC_frame(5) [OF g1] that] ref
    by simp
  show ?case
    using Suc.IH [OF p r1 h1 inv] .
qed

text \<open>
  C6. While a persistent root is registered, every GC thing it refers to that is in the
  managed heap is still in the heap after any number of forced collection passes that
  complete, and the root is still registered. After \<open>reset()\<close> the root is not registered,
  and a thing that no remaining root reaches is reclaimed by the next pass.
\<close>

theorem persistent_root_keeps_alive:
  "(r \<in> set (persistent_roots rt) \<and> g \<in> root_referents rt r \<and> g \<in> fst ` set (heap rt) \<and>
    gc_passes n rt = Inr rt' \<longrightarrow>
      g \<in> fst ` set (heap rt') \<and> r \<in> set (persistent_roots rt'))
   \<and> (PersistentRooted_reset r rt = Inr rt1 \<and> g \<notin> marked rt1 \<and> JS_GC rt1 = Inr rt2 \<longrightarrow>
      r \<notin> set (persistent_roots rt1) \<and> g \<notin> fst ` set (heap rt2))"
proof -
  have a: "g \<in> fst ` set (heap rt') \<and> r \<in> set (persistent_roots rt')"
    if "r \<in> set (persistent_roots rt)" "g \<in> root_referents rt r" "g \<in> fst ` set (heap rt)"
      "gc_passes n rt = Inr rt'"
    using kept_alive [OF that(4) that(1) that(3)] that(2) by blast
  have b: "r \<notin> set (persistent_roots rt1) \<and> g \<notin> fst ` set (heap rt2)"
    if "PersistentRooted_reset r rt = Inr rt1" "g \<notin> marked rt1" "JS_GC rt1 = Inr rt2"
  proof
    show "r \<notin> set (persistent_roots rt1)"
      using that(1)
      by (auto simp: PersistentRooted_reset_def and_then_def lift_fault_def
          split: if_splits sum.splits)
    show "g \<notin> fst ` set (heap rt2)"
      using that(2) JS_GC_frame(4) [OF that(3)] by (auto simp: live_cells_def)
  qed
  show ?thesis using a b by blast
qed

lemmas persistent_example_defs = persistent_example_def live_cells_def dead_cells_def
  marked_def root_set_def root_referents_def edges_def children_def class_trace_hook_def
  all_roots_def trace_root_def visitEdge_def referent_def TraceEdge_def call_trace_def
  SafeBox_trace_def clasp_def classOps_def and_then_def lift_fault_def

theorem persistent_root_keeps_alive_witness:
  "\<exists>rt' rt1 rt2.
     globalPtrSafe \<in> set (persistent_roots persistent_example) \<and>
     0 \<in> root_referents persistent_example globalPtrSafe \<and>
     gc_passes 3 persistent_example = Inr rt' \<and>
     map fst (heap rt') = [0, 1] \<and>
     PersistentRooted_reset globalPtrSafe persistent_example = Inr rt1 \<and>
     persistent_roots rt1 = [] \<and>
     JS_GC rt1 = Inr rt2 \<and> heap rt2 = []"
proof -
  define rt' where
    "rt' = persistent_example\<lparr>heap := [(0, \<lparr>clasp_name = ''Object'', slots = []\<rparr>),
                                       (1, \<lparr>clasp_name = ''Array'', slots = []\<rparr>)]\<rparr>"
  define rt1 where
    "rt1 = persistent_example\<lparr>persistent_roots := [], native := Map.empty,
              rooted_value := (rooted_value persistent_example)
                                (globalPtrSafe := RootedObject None),
              events := [Started, Registered globalPtrSafe, Deregistered globalPtrSafe]\<rparr>"
  define rt2 where "rt2 = rt1\<lparr>heap := []\<rparr>"
  have m0: "marked persistent_example = {0, 1}"
    by (auto simp: persistent_example_defs)
  have g0: "JS_GC persistent_example = Inr rt'"
    by (simp add: JS_GC_def live_cells_def dead_cells_def m0)
      (simp add: persistent_example_defs rt'_def)
  have m': "marked rt' = {0, 1}"
    by (auto simp: rt'_def persistent_example_defs)
  have g': "JS_GC rt' = Inr rt'"
    by (simp add: JS_GC_def live_cells_def dead_cells_def m')
      (simp add: persistent_example_defs rt'_def)
  have p: "gc_passes 3 persistent_example = Inr rt'"
    by (simp add: numeral_3_eq_3 g0 g' and_then_def)
  have r: "PersistentRooted_reset globalPtrSafe persistent_example = Inr rt1"
    by (simp add: PersistentRooted_reset_def persistent_example_def rt1_def and_then_def
        lift_fault_def delete_SafeBox_def)
  have m1: "marked rt1 = {}"
    by (simp add: rt1_def persistent_example_defs)
  have g1: "JS_GC rt1 = Inr rt2"
    by (simp add: JS_GC_def live_cells_def dead_cells_def m1)
      (simp add: persistent_example_defs rt1_def rt2_def)
  have h1: "globalPtrSafe \<in> set (persistent_roots persistent_example)"
    and h2: "0 \<in> root_referents persistent_example globalPtrSafe"
    and h3: "0 \<in> fst ` set (heap persistent_example)"
    by (simp_all add: persistent_example_defs)
  have "0 \<in> fst ` set (heap rt') \<and> globalPtrSafe \<in> set (persistent_roots rt')"
    and "globalPtrSafe \<notin> set (persistent_roots rt1) \<and> 0 \<notin> fst ` set (heap rt2)"
    using persistent_root_keeps_alive
      [of globalPtrSafe persistent_example 0 3 rt' rt1 rt2] h1 h2 h3 p r m1 g1
    by simp_all
  then show ?thesis
    using h1 h2 p r g1 by (simp add: rt'_def rt1_def rt2_def persistent_example_def)
qed

section \<open>Relocation\<close>

lemma heap_fixup_slot: "heap (fixup_slot fwd s rt) = heap rt"
  by (simp add: fixup_slot_def split: slot_addr.splits option.splits rooted.splits)

lemma heap_fold_fixup: "heap (fold (fixup_slot fwd) ss rt) = heap rt"
  by (induction ss arbitrary: rt) (simp_all add: heap_fixup_slot)

lemma referent_fixup_other:
  "s \<noteq> s' \<Longrightarrow> referent (fixup_slot fwd s rt) s' = referent rt s'"
  by (cases s; cases s')
    (auto simp: fixup_slot_def referent_def split: option.splits rooted.splits)

lemma referent_fixup_same:
  "referent (fixup_slot fwd s rt) s = map_option fwd (referent rt s)"
  by (cases s)
    (auto simp: fixup_slot_def referent_def forward_def split: option.splits rooted.splits Value.splits)

lemma referent_fold_fixup:
  "distinct ss \<Longrightarrow>
     referent (fold (fixup_slot fwd) ss rt) s =
       (if s \<in> set ss then map_option fwd (referent rt s) else referent rt s)"
proof (induction ss arbitrary: rt)
  case Nil
  show ?case by simp
next
  case (Cons x xs)
  then have d: "distinct xs" and nx: "x \<notin> set xs" by simp_all
  show ?case
  proof (cases "s = x")
    case True
    then show ?thesis
      using Cons.IH [OF d, of "fixup_slot fwd x rt"] nx by (simp add: referent_fixup_same)
  next
    case False
    then have "referent (fixup_slot fwd x rt) s = referent rt s"
      using referent_fixup_other [of x s] by simp
    then show ?thesis
      using Cons.IH [OF d, of "fixup_slot fwd x rt"] False by simp
  qed
qed

lemma map_of_moved:
  "inj_on fwd (insert g (fst ` set h)) \<Longrightarrow>
     map_of (map (\<lambda>c. (fwd (fst c), snd c)) h) (fwd g) = map_of h g"
proof (induction h)
  case Nil
  show ?case by simp
next
  case (Cons c h)
  have "inj_on fwd (insert g (fst ` set h))"
    using Cons.prems by (rule inj_on_subset) auto
  then have ih: "map_of (map (\<lambda>c. (fwd (fst c), snd c)) h) (fwd g) = map_of h g"
    by (rule Cons.IH)
  have "fwd g = fwd (fst c) \<longleftrightarrow> g = fst c"
    using Cons.prems by (auto simp: inj_on_def)
  then show ?case
    using ih by (cases c) auto
qed

text \<open>
  C8. Let a relocating pass complete, moving each cell to a new address (distinct cells
  to distinct addresses). A slot that the trace of a registered root visits (the storage
  of a rooted object pointer, or a \<open>JS::Heap\<close> field of a rooted box, which
  \<open>SafeBox::trace\<close> passes by address) and that referred to a cell of the heap holds the
  forwarded address afterwards and resolves to the same object as before.
\<close>

theorem relocation_preserves_identity:
  assumes "relocate fwd rt = Inr rt'"
    and "inj_on fwd (fst ` set (heap rt))"
    and "r \<in> set (all_roots rt)"
    and "trace_root rt r \<lparr>visits = []\<rparr> = Inr t"
    and "(slot, label) \<in> set (visits t)"
    and "referent rt slot = Some g"
    and "g \<in> fst ` set (heap rt)"
  shows "referent rt' slot = Some (fwd g) \<and> resolve rt' slot = resolve rt slot \<and>
         resolve rt' slot \<noteq> None"
proof -
  let ?moved = "rt\<lparr>heap := map (\<lambda>c. (fwd (fst c), snd c)) (heap rt)\<rparr>"
  obtain trc vs where tr: "traceAll rt (all_roots rt) \<lparr>visits = []\<rparr> = Inr trc"
    and rt': "rt' = fold (fixup_slot fwd) (remdups (map fst (visits trc @ vs))) ?moved"
    using assms(1)
    by (auto simp: relocate_def and_then_def lift_fault_def split: sum.splits)
  obtain t0 where t0: "trace_root rt r \<lparr>visits = []\<rparr> = Inr t0"
    and sub: "set (visits t0) \<subseteq> set (visits trc)"
    using traceAll_visits [OF tr assms(3)] by blast
  have "t0 = t" using t0 assms(4) by simp
  then have "(slot, label) \<in> set (visits trc)"
    using sub assms(5) by blast
  then have mem: "slot \<in> set (remdups (map fst (visits trc @ vs)))"
    by force
  have same: "referent ?moved slot = referent rt slot"
    by (cases slot) (simp_all add: referent_def)
  have ref: "referent rt' slot = Some (fwd g)"
    using referent_fold_fixup [of "remdups (map fst (visits trc @ vs))" fwd ?moved slot]
      mem same assms(6) rt' by simp
  have "inj_on fwd (insert g (fst ` set (heap rt)))"
    using assms(2,7) by (simp add: insert_absorb)
  then have "map_of (heap rt') (fwd g) = map_of (heap rt) g"
    using map_of_moved [of fwd g "heap rt"] rt' by (simp add: heap_fold_fixup)
  then have res: "resolve rt' slot = resolve rt slot"
    using ref assms(6) by (simp add: resolve_def)
  have "map_of (heap rt) g \<noteq> None"
    using assms(7) by (simp add: map_of_eq_None_iff)
  then have "resolve rt slot \<noteq> None"
    using assms(6) by (simp add: resolve_def)
  with ref res show ?thesis by simp
qed

theorem relocation_preserves_identity_witness:
  "\<exists>rt'. relocate (\<lambda>g. g + 10) persistent_example = Inr rt' \<and>
     referent persistent_example (ElemSlot 0 0) = Some 1 \<and>
     referent rt' (ElemSlot 0 0) = Some 11 \<and>
     resolve persistent_example (ElemSlot 0 0) = Some \<lparr>clasp_name = ''Array'', slots = []\<rparr> \<and>
     resolve rt' (ElemSlot 0 0) = Some \<lparr>clasp_name = ''Array'', slots = []\<rparr>"
proof -
  obtain rt' where r: "relocate (\<lambda>g. g + 10) persistent_example = Inr rt'"
    by (simp add: relocate_def persistent_example_defs)
  have h2: "inj_on (\<lambda>g::nat. g + 10) (fst ` set (heap persistent_example))"
    by (simp add: inj_on_def)
  have h3: "globalPtrSafe \<in> set (all_roots persistent_example)"
    by (simp add: persistent_example_defs)
  have h4: "trace_root persistent_example globalPtrSafe \<lparr>visits = []\<rparr> =
              Inr \<lparr>visits = [(StashedSlot 0, ''stashed value''), (ElemSlot 0 0, ''container value'')]\<rparr>"
    by (simp add: persistent_example_defs)
  have h6: "referent persistent_example (ElemSlot 0 0) = Some 1"
    by (simp add: persistent_example_defs)
  have h7: "1 \<in> fst ` set (heap persistent_example)"
    by (simp add: persistent_example_defs)
  have res: "resolve persistent_example (ElemSlot 0 0) = Some \<lparr>clasp_name = ''Array'', slots = []\<rparr>"
    by (simp add: resolve_def h6) (simp add: persistent_example_def)
  show ?thesis
    using relocation_preserves_identity [OF r h2 h3 h4 _ h6 h7, of "''container value''"] r h6 res
    by simp
qed

end
